theory Spec2Isabelle
  imports Complex_Main
begin

section \<open>JavaScript numbers\<close>

text \<open>
  The solver computes on JavaScript numbers. A finite number is modelled by the real it
  denotes (no rounding, no overflow, one zero without a sign); the three special values
  are kept, because the search divides by zero on its default options
  (\<^verbatim>\<open>maxWidth / options.minHeight\<close> with \<^verbatim>\<open>minHeight = 0\<close>) and every comparison
  with \<^verbatim>\<open>NaN\<close> is false, which decides whether a loop is entered.
\<close>

datatype jsnum = Fin real | PInf | NInf | NaN

fun js_neg :: "jsnum \<Rightarrow> jsnum" where
  "js_neg (Fin a) = Fin (- a)"
| "js_neg PInf = NInf"
| "js_neg NInf = PInf"
| "js_neg NaN = NaN"

fun js_add :: "jsnum \<Rightarrow> jsnum \<Rightarrow> jsnum" where
  "js_add (Fin a) (Fin b) = Fin (a + b)"
| "js_add NaN _ = NaN"
| "js_add _ NaN = NaN"
| "js_add PInf NInf = NaN"
| "js_add NInf PInf = NaN"
| "js_add PInf _ = PInf"
| "js_add _ PInf = PInf"
| "js_add NInf _ = NInf"
| "js_add _ NInf = NInf"

definition js_sub :: "jsnum \<Rightarrow> jsnum \<Rightarrow> jsnum" where
  "js_sub a b = js_add a (js_neg b)"

text \<open>The infinity with the sign of a non-zero real; zero times infinity is \<^verbatim>\<open>NaN\<close>.\<close>

definition js_inf :: "real \<Rightarrow> jsnum" where
  "js_inf s = (if s = 0 then NaN else if 0 < s then PInf else NInf)"

fun js_mul :: "jsnum \<Rightarrow> jsnum \<Rightarrow> jsnum" where
  "js_mul (Fin a) (Fin b) = Fin (a * b)"
| "js_mul NaN _ = NaN"
| "js_mul _ NaN = NaN"
| "js_mul (Fin a) PInf = js_inf a"
| "js_mul (Fin a) NInf = js_inf (- a)"
| "js_mul PInf (Fin b) = js_inf b"
| "js_mul NInf (Fin b) = js_inf (- b)"
| "js_mul PInf PInf = PInf"
| "js_mul NInf NInf = PInf"
| "js_mul PInf NInf = NInf"
| "js_mul NInf PInf = NInf"

text \<open>
  Division: a finite non-zero number over zero is an infinity (of the sign of the
  numerator, the zero being unsigned), zero over zero and infinity over infinity are
  \<^verbatim>\<open>NaN\<close>, a finite number over an infinity is zero.
\<close>

fun js_div :: "jsnum \<Rightarrow> jsnum \<Rightarrow> jsnum" where
  "js_div (Fin a) (Fin b) = (if b = 0 then js_inf a else Fin (a / b))"
| "js_div NaN _ = NaN"
| "js_div _ NaN = NaN"
| "js_div (Fin a) _ = Fin 0"
| "js_div PInf (Fin b) = (if 0 \<le> b then PInf else NInf)"
| "js_div NInf (Fin b) = (if 0 \<le> b then NInf else PInf)"
| "js_div PInf PInf = NaN"
| "js_div PInf NInf = NaN"
| "js_div NInf PInf = NaN"
| "js_div NInf NInf = NaN"

text \<open>\<^verbatim>\<open>a < b\<close>, \<^verbatim>\<open>a >= b\<close> and \<^verbatim>\<open>a === b\<close> on numbers: false as soon as one side is \<^verbatim>\<open>NaN\<close>.\<close>

fun js_lt :: "jsnum \<Rightarrow> jsnum \<Rightarrow> bool" where
  "js_lt (Fin a) (Fin b) = (a < b)"
| "js_lt NaN _ = False"
| "js_lt _ NaN = False"
| "js_lt NInf NInf = False"
| "js_lt NInf _ = True"
| "js_lt _ NInf = False"
| "js_lt PInf _ = False"
| "js_lt _ PInf = True"

fun js_eq :: "jsnum \<Rightarrow> jsnum \<Rightarrow> bool" where
  "js_eq NaN _ = False"
| "js_eq _ NaN = False"
| "js_eq a b = (a = b)"

definition js_ge :: "jsnum \<Rightarrow> jsnum \<Rightarrow> bool" where
  "js_ge a b = (js_lt b a \<or> js_eq a b)"

definition js_gt :: "jsnum \<Rightarrow> jsnum \<Rightarrow> bool" where
  "js_gt a b = js_lt b a"

text \<open>\<^verbatim>\<open>Math.min\<close>, \<^verbatim>\<open>Math.max\<close>, \<^verbatim>\<open>Math.sqrt\<close>, \<^verbatim>\<open>Math.abs\<close>.\<close>

definition js_min :: "jsnum \<Rightarrow> jsnum \<Rightarrow> jsnum" where
  "js_min a b = (if a = NaN \<or> b = NaN then NaN else if js_lt b a then b else a)"

definition js_max :: "jsnum \<Rightarrow> jsnum \<Rightarrow> jsnum" where
  "js_max a b = (if a = NaN \<or> b = NaN then NaN else if js_lt a b then b else a)"

fun js_sqrt :: "jsnum \<Rightarrow> jsnum" where
  "js_sqrt (Fin a) = (if a < 0 then NaN else Fin (sqrt a))"
| "js_sqrt PInf = PInf"
| "js_sqrt NInf = NaN"
| "js_sqrt NaN = NaN"

fun js_abs :: "jsnum \<Rightarrow> jsnum" where
  "js_abs (Fin a) = Fin \<bar>a\<bar>"
| "js_abs PInf = PInf"
| "js_abs NInf = PInf"
| "js_abs NaN = NaN"

definition PI :: jsnum where
  "PI = Fin pi"

section \<open>Data model\<close>

text \<open>A point is the array \<^verbatim>\<open>[x, y]\<close>; a polygon is an array of points.\<close>

type_synonym point = "jsnum \<times> jsnum"

type_synonym polygon = "point list"

text \<open>
  The object \<^verbatim>\<open>{area, cx, cy, width, height, angle, points}\<close> that the search records.
  An entry of \<open>points\<close> is \<open>None\<close> where the array holds \<^verbatim>\<open>undefined\<close>
  (reading index 0 of an empty array).
\<close>

record candidate =
  area :: jsnum
  cx :: jsnum
  cy :: jsnum
  width :: jsnum
  height :: jsnum
  angle :: jsnum
  points :: "point option list"

text \<open>The entries pushed on \<^verbatim>\<open>events\<close>, one constructor for each \<^verbatim>\<open>type\<close>.\<close>

datatype event =
    EvSimplify polygon
  | EvOrigins "point list"
  | EvAngle jsnum
  | EvModifOrigin nat "point option" "point option" "point option" "point option" "point list"
  | EvOrigin jsnum jsnum
  | EvARatio jsnum
  | EvRectangle jsnum jsnum jsnum jsnum jsnum jsnum bool

text \<open>
  What a caller may put in \<^verbatim>\<open>options.angle\<close> and \<^verbatim>\<open>options.aspectRatio\<close>: nothing,
  an array of numbers, a number, a string, or any other value.
\<close>

datatype numarg = Absent | Arr "jsnum list" | Num jsnum | Str string | Other

text \<open>
  \<^verbatim>\<open>options.origin\<close>: a falsy value or one that is not an array; an array whose first
  entry is not an array (one point); an array whose first entry is an array (several
  points); the empty array.
\<close>

datatype originarg = NoOrigin | OnePoint point | ManyPoints point "point list" | EmptyArray

text \<open>The options as the caller passes them: an absent key is \<open>None\<close>.\<close>

record user_options =
  u_angle :: numarg
  u_aspectRatio :: numarg
  u_maxAspectRatio :: "jsnum option"
  u_minAspectRatio :: "jsnum option"
  u_minHeight :: "jsnum option"
  u_minWidth :: "jsnum option"
  u_nTries :: "jsnum option"
  u_tolerance :: "jsnum option"
  u_verbose :: "bool option"
  u_origin :: originarg
  u_events :: bool

text \<open>The options after \<^verbatim>\<open>Object.assign\<close> has filled in the defaults.\<close>

record options =
  opt_angle :: numarg
  opt_aspectRatio :: numarg
  maxAspectRatio :: jsnum
  minAspectRatio :: jsnum
  minHeight :: jsnum
  minWidth :: jsnum
  nTries :: jsnum
  tolerance :: jsnum
  verbose :: bool
  opt_origin :: originarg
  opt_events :: bool

text \<open>
  The functions that the module imports and whose code is not part of the file: from
  d3-array and d3-polygon, from the sibling modules of the repository, and the
  conversion \<^verbatim>\<open>Number\<close> of a string. They are parameters of the model.
\<close>

record deps =
  extent :: "jsnum list \<Rightarrow> jsnum \<times> jsnum"
  range :: "jsnum \<Rightarrow> jsnum \<Rightarrow> jsnum \<Rightarrow> jsnum list"
  polygonArea :: "polygon \<Rightarrow> jsnum"
  polygonCentroid :: "polygon \<Rightarrow> point"
  pointInPoly :: "point \<Rightarrow> polygon \<Rightarrow> bool"
  polyInPoly :: "polygon \<Rightarrow> polygon \<Rightarrow> bool"
  rayIntersectsPoly :: "polygon \<Rightarrow> point \<Rightarrow> jsnum \<Rightarrow> point option \<times> point option"
  rotatePoly :: "polygon \<Rightarrow> jsnum \<Rightarrow> point \<Rightarrow> polygon"
  simplify :: "polygon \<Rightarrow> jsnum \<Rightarrow> polygon"
  squaredDistance :: "point \<Rightarrow> point \<Rightarrow> jsnum"
  toNumber :: "string \<Rightarrow> jsnum"

text \<open>The two messages of \<^verbatim>\<open>console.error\<close>.\<close>

datatype console_msg = TooFewPoints polygon | ZeroArea polygon

text \<open>
  What the call returns: \<^verbatim>\<open>null\<close>, the recorded rectangle, or, when
  \<^verbatim>\<open>options.events\<close> is set, the object that carries \<^verbatim>\<open>events\<close> and the fields of
  the recorded rectangle if there is one.
\<close>

datatype result = Null | Rect candidate | Traced "candidate option" "event list"

text \<open>The variables \<^verbatim>\<open>maxArea\<close>, \<^verbatim>\<open>maxRect\<close> and \<^verbatim>\<open>events\<close> of the search.\<close>

record state =
  maxArea :: jsnum
  maxRect :: "candidate option"
  events :: "event list"

section \<open>The search\<close>

definition angleStep :: jsnum where
  "angleStep = Fin 5"

definition aspectRatioStep :: jsnum where
  "aspectRatioStep = Fin (1 / 2)"

definition with_defaults :: "deps \<Rightarrow> user_options \<Rightarrow> options" where
  "with_defaults D u = \<lparr>
     opt_angle = (case u_angle u of
                    Absent \<Rightarrow> Arr (range D (js_neg (Fin 90)) (js_add (Fin 90) angleStep) angleStep)
                  | a \<Rightarrow> a),
     opt_aspectRatio = u_aspectRatio u,
     maxAspectRatio = (case u_maxAspectRatio u of None \<Rightarrow> Fin 15 | Some v \<Rightarrow> v),
     minAspectRatio = (case u_minAspectRatio u of None \<Rightarrow> Fin 1 | Some v \<Rightarrow> v),
     minHeight = (case u_minHeight u of None \<Rightarrow> Fin 0 | Some v \<Rightarrow> v),
     minWidth = (case u_minWidth u of None \<Rightarrow> Fin 0 | Some v \<Rightarrow> v),
     nTries = (case u_nTries u of None \<Rightarrow> Fin 20 | Some v \<Rightarrow> v),
     tolerance = (case u_tolerance u of None \<Rightarrow> Fin (2 / 100) | Some v \<Rightarrow> v),
     verbose = (case u_verbose u of None \<Rightarrow> False | Some v \<Rightarrow> v),
     opt_origin = u_origin u,
     opt_events = u_events u \<rparr>"

text \<open>
  \<^verbatim>\<open>x instanceof Array ? x : typeof x === "number" ? [x]
     : typeof x === "string" && !isNaN(x) ? [Number(x)] : []\<close>
\<close>

fun numlist :: "deps \<Rightarrow> numarg \<Rightarrow> jsnum list" where
  "numlist D (Arr xs) = xs"
| "numlist D (Num x) = [x]"
| "numlist D (Str s) = (if toNumber D s \<noteq> NaN then [toNumber D s] else [])"
| "numlist D _ = []"

definition angles :: "deps \<Rightarrow> options \<Rightarrow> jsnum list" where
  "angles D opts = numlist D (opt_angle opts)"

definition aspectRatios :: "deps \<Rightarrow> options \<Rightarrow> jsnum list" where
  "aspectRatios D opts = numlist D (opt_aspectRatio opts)"

text \<open>
  \<^verbatim>\<open>options.origin && options.origin instanceof Array
     ? options.origin[0] instanceof Array ? options.origin : [options.origin] : []\<close>.
  The empty array is wrapped like a point; its coordinates read as \<^verbatim>\<open>undefined\<close>,
  which arithmetic turns into \<^verbatim>\<open>NaN\<close>.
\<close>

fun origins :: "originarg \<Rightarrow> point list" where
  "origins NoOrigin = []"
| "origins (OnePoint p) = [p]"
| "origins (ManyPoints p ps) = p # ps"
| "origins EmptyArray = [(NaN, NaN)]"

definition push_event :: "bool \<Rightarrow> event \<Rightarrow> state \<Rightarrow> state" where
  "push_event on e st = (if on then st\<lparr>events := events st @ [e]\<rparr> else st)"

text \<open>\<^verbatim>\<open>rectPoly.push(rectPoly[0])\<close>\<close>

definition push_first :: "polygon \<Rightarrow> point option list" where
  "push_first rectPoly =
     map Some rectPoly @ [case rectPoly of [] \<Rightarrow> None | p # _ \<Rightarrow> Some p]"

definition corners :: "point \<Rightarrow> jsnum \<Rightarrow> jsnum \<Rightarrow> polygon" where
  "corners origin wd ht =
     (let ox = fst origin; oy = snd origin;
          hw = js_div wd (Fin 2); hh = js_div ht (Fin 2)
      in [(js_sub ox hw, js_sub oy hh), (js_add ox hw, js_sub oy hh),
          (js_add ox hw, js_add oy hh), (js_sub ox hw, js_add oy hh)])"

text \<open>
  One pass through the body of \<^verbatim>\<open>while (right - left >= widthStep)\<close>, on the triple
  of \<^verbatim>\<open>left\<close>, \<^verbatim>\<open>right\<close> and the search variables.
\<close>

definition probe ::
  "deps \<Rightarrow> options \<Rightarrow> polygon \<Rightarrow> jsnum \<Rightarrow> jsnum \<Rightarrow> jsnum \<Rightarrow> point \<Rightarrow> jsnum
    \<Rightarrow> jsnum \<times> jsnum \<times> state \<Rightarrow> jsnum \<times> jsnum \<times> state" where
  "probe D opts poly area0 ang angleRad origin aRatio lrs =
     (let left = fst lrs; right = fst (snd lrs); st = snd (snd lrs);
          wd = js_div (js_add left right) (Fin 2);
          ht = js_div wd aRatio;
          rectPoly = rotatePoly D (corners origin wd ht) angleRad origin;
          insidePoly = polyInPoly D rectPoly poly;
          ev = EvRectangle (js_div (js_mul wd ht) area0) (fst origin) (snd origin)
                 wd ht ang insidePoly
      in if insidePoly
         then (wd, right,
               push_event (opt_events opts) ev
                 (st\<lparr>maxArea := js_mul wd ht,
                     maxRect := Some \<lparr>area = js_mul wd ht, cx = fst origin, cy = snd origin,
                                      width = wd, height = ht, angle = ang,
                                      points = push_first rectPoly\<rparr>\<rparr>))
         else (left, wd, push_event (opt_events opts) ev st))"

partial_function (option) binary_search ::
  "deps \<Rightarrow> options \<Rightarrow> polygon \<Rightarrow> jsnum \<Rightarrow> jsnum \<Rightarrow> jsnum \<Rightarrow> jsnum \<Rightarrow> point \<Rightarrow> jsnum
    \<Rightarrow> jsnum \<times> jsnum \<times> state \<Rightarrow> state option" where
  "binary_search D opts poly area0 widthStep ang angleRad origin aRatio lrs =
     (if js_ge (js_sub (fst (snd lrs)) (fst lrs)) widthStep
      then binary_search D opts poly area0 widthStep ang angleRad origin aRatio
             (probe D opts poly area0 ang angleRad origin aRatio lrs)
      else Some (snd (snd lrs)))"

text \<open>\<^verbatim>\<open>for (let a = 0; a < aRatios.length; a++)\<close>\<close>

fun for_aRatios ::
  "deps \<Rightarrow> options \<Rightarrow> polygon \<Rightarrow> jsnum \<Rightarrow> jsnum \<Rightarrow> jsnum \<Rightarrow> jsnum \<Rightarrow> point \<Rightarrow> jsnum \<Rightarrow> jsnum
    \<Rightarrow> jsnum list \<Rightarrow> state \<Rightarrow> state option" where
  "for_aRatios D opts poly area0 widthStep ang angleRad origin maxWidth maxHeight [] st = Some st"
| "for_aRatios D opts poly area0 widthStep ang angleRad origin maxWidth maxHeight (aRatio # rest) st =
     (let left = js_max (minWidth opts) (js_sqrt (js_mul (maxArea st) aRatio));
          right = js_min maxWidth (js_mul maxHeight aRatio)
      in if js_lt (js_mul right maxHeight) (maxArea st)
         then for_aRatios D opts poly area0 widthStep ang angleRad origin maxWidth maxHeight rest st
         else
           (case binary_search D opts poly area0 widthStep ang angleRad origin aRatio
                   (left, right,
                    push_event (opt_events opts \<and> js_ge (js_sub right left) widthStep)
                      (EvARatio aRatio) st) of
              None \<Rightarrow> None
            | Some st' \<Rightarrow>
                for_aRatios D opts poly area0 widthStep ang angleRad origin maxWidth maxHeight
                  rest st'))"

text \<open>The body of \<^verbatim>\<open>for (let i = 0; i < modifOrigins.length; i++)\<close>.\<close>

definition try_origin ::
  "deps \<Rightarrow> options \<Rightarrow> polygon \<Rightarrow> jsnum \<Rightarrow> jsnum \<Rightarrow> jsnum \<Rightarrow> jsnum \<Rightarrow> point \<Rightarrow> state
    \<Rightarrow> state option" where
  "try_origin D opts poly area0 widthStep ang angleRad origin st0 =
     (let st = push_event (opt_events opts) (EvOrigin (fst origin) (snd origin)) st0
      in case rayIntersectsPoly D poly origin angleRad of
           (Some p1W, Some p2W) \<Rightarrow>
             (let minSqDistW = js_min (squaredDistance D origin p1W) (squaredDistance D origin p2W);
                  maxWidth = js_mul (Fin 2) (js_sqrt minSqDistW)
              in case rayIntersectsPoly D poly origin (js_add angleRad (js_div PI (Fin 2))) of
                   (Some p1H, Some p2H) \<Rightarrow>
                     (let minSqDistH = js_min (squaredDistance D origin p1H)
                                         (squaredDistance D origin p2H);
                          maxHeight = js_mul (Fin 2) (js_sqrt minSqDistH)
                      in if js_lt (js_mul maxWidth maxHeight) (maxArea st) then Some st
                         else
                           (let aRatios =
                                  (if aspectRatios D opts = []
                                   then
                                     (let minAR = js_max (js_max (minAspectRatio opts)
                                                     (js_div (minWidth opts) maxHeight))
                                                     (js_div (maxArea st) (js_mul maxHeight maxHeight));
                                          maxAR = js_min (js_min (maxAspectRatio opts)
                                                     (js_div maxWidth (minHeight opts)))
                                                     (js_div (js_mul maxWidth maxWidth) (maxArea st))
                                      in range D minAR (js_add maxAR aspectRatioStep) aspectRatioStep)
                                   else aspectRatios D opts)
                            in for_aRatios D opts poly area0 widthStep ang angleRad origin
                                 maxWidth maxHeight aRatios st))
                 | _ \<Rightarrow> Some st)
         | _ \<Rightarrow> Some st)"

fun for_modifOrigins ::
  "deps \<Rightarrow> options \<Rightarrow> polygon \<Rightarrow> jsnum \<Rightarrow> jsnum \<Rightarrow> jsnum \<Rightarrow> jsnum \<Rightarrow> point list \<Rightarrow> state
    \<Rightarrow> state option" where
  "for_modifOrigins D opts poly area0 widthStep ang angleRad [] st = Some st"
| "for_modifOrigins D opts poly area0 widthStep ang angleRad (origin # rest) st =
     (case try_origin D opts poly area0 widthStep ang angleRad origin st of
        None \<Rightarrow> None
      | Some st' \<Rightarrow> for_modifOrigins D opts poly area0 widthStep ang angleRad rest st')"

definition midpoint :: "point \<Rightarrow> point \<Rightarrow> point" where
  "midpoint p q = (js_div (js_add (fst p) (fst q)) (Fin 2), js_div (js_add (snd p) (snd q)) (Fin 2))"

text \<open>The improved origins of \<^verbatim>\<open>origOrigin\<close>: the averages along the width and the height axis.\<close>

definition modifOrigins :: "deps \<Rightarrow> polygon \<Rightarrow> jsnum \<Rightarrow> point \<Rightarrow> point list" where
  "modifOrigins D poly angleRad origOrigin =
     (case rayIntersectsPoly D poly origOrigin angleRad of
        (Some p1W, Some p2W) \<Rightarrow> [midpoint p1W p2W]
      | _ \<Rightarrow> []) @
     (case rayIntersectsPoly D poly origOrigin (js_add angleRad (js_div PI (Fin 2))) of
        (Some p1H, Some p2H) \<Rightarrow> [midpoint p1H p2H]
      | _ \<Rightarrow> [])"

text \<open>The callback of \<^verbatim>\<open>origins.forEach((origOrigin, i) => ...)\<close>.\<close>

definition each_origin ::
  "deps \<Rightarrow> options \<Rightarrow> polygon \<Rightarrow> jsnum \<Rightarrow> jsnum \<Rightarrow> jsnum \<Rightarrow> jsnum \<Rightarrow> nat \<times> point \<Rightarrow> state
    \<Rightarrow> state option" where
  "each_origin D opts poly area0 widthStep ang angleRad ip st =
     (let i = fst ip; origOrigin = snd ip;
          pW = rayIntersectsPoly D poly origOrigin angleRad;
          pH = rayIntersectsPoly D poly origOrigin (js_add angleRad (js_div PI (Fin 2)));
          ms = modifOrigins D poly angleRad origOrigin
      in for_modifOrigins D opts poly area0 widthStep ang angleRad ms
           (push_event (opt_events opts)
              (EvModifOrigin i (fst pW) (snd pW) (fst pH) (snd pH) ms) st))"

fun for_origins ::
  "deps \<Rightarrow> options \<Rightarrow> polygon \<Rightarrow> jsnum \<Rightarrow> jsnum \<Rightarrow> jsnum \<Rightarrow> jsnum \<Rightarrow> (nat \<times> point) list \<Rightarrow> state
    \<Rightarrow> state option" where
  "for_origins D opts poly area0 widthStep ang angleRad [] st = Some st"
| "for_origins D opts poly area0 widthStep ang angleRad (ip # rest) st =
     (case each_origin D opts poly area0 widthStep ang angleRad ip st of
        None \<Rightarrow> None
      | Some st' \<Rightarrow> for_origins D opts poly area0 widthStep ang angleRad rest st')"

definition to_angleRad :: "jsnum \<Rightarrow> jsnum" where
  "to_angleRad ang = js_div (js_mul (js_neg ang) PI) (Fin 180)"

text \<open>The callback of \<^verbatim>\<open>angles.forEach(angle => ...)\<close>.\<close>

definition each_angle ::
  "deps \<Rightarrow> options \<Rightarrow> polygon \<Rightarrow> jsnum \<Rightarrow> jsnum \<Rightarrow> point list \<Rightarrow> jsnum \<Rightarrow> state \<Rightarrow> state option" where
  "each_angle D opts poly area0 widthStep os ang st =
     for_origins D opts poly area0 widthStep ang (to_angleRad ang) (zip [0 ..< length os] os)
       (push_event (opt_events opts) (EvAngle ang) st)"

fun for_angles ::
  "deps \<Rightarrow> options \<Rightarrow> polygon \<Rightarrow> jsnum \<Rightarrow> jsnum \<Rightarrow> point list \<Rightarrow> jsnum list \<Rightarrow> state
    \<Rightarrow> state option" where
  "for_angles D opts poly area0 widthStep os [] st = Some st"
| "for_angles D opts poly area0 widthStep os (ang # rest) st =
     (case each_angle D opts poly area0 widthStep os ang st of
        None \<Rightarrow> None
      | Some st' \<Rightarrow> for_angles D opts poly area0 widthStep os rest st')"

text \<open>
  \<^verbatim>\<open>while (origins.length < options.nTries)\<close>: each pass calls \<^verbatim>\<open>Math.random\<close> twice.
  The results of the successive calls are the sequence \<open>rnd\<close>, read from index \<open>k\<close> on.
\<close>

partial_function (option) sample_origins ::
  "deps \<Rightarrow> (nat \<Rightarrow> jsnum) \<Rightarrow> polygon \<Rightarrow> jsnum \<Rightarrow> jsnum \<Rightarrow> jsnum \<Rightarrow> jsnum \<Rightarrow> jsnum \<Rightarrow> nat
    \<Rightarrow> point list \<Rightarrow> point list option" where
  "sample_origins D rnd poly boxWidth boxHeight minx miny n k os =
     (if js_lt (Fin (real (length os))) n
      then
        (let rndX = js_add (js_mul (rnd k) boxWidth) minx;
             rndY = js_add (js_mul (rnd (k + 1)) boxHeight) miny;
             rndPoint = (rndX, rndY)
         in sample_origins D rnd poly boxWidth boxHeight minx miny n (k + 2)
              (if pointInPoly D rndPoint poly then os @ [rndPoint] else os))
      else Some os)"

text \<open>
  The bounding box of the polygon, from \<^verbatim>\<open>extent(poly, d => d[0])\<close> and
  \<^verbatim>\<open>extent(poly, d => d[1])\<close>, and the resolution of the binary search.
\<close>

definition minx :: "deps \<Rightarrow> polygon \<Rightarrow> jsnum" where
  "minx D poly = fst (extent D (map fst poly))"

definition maxx :: "deps \<Rightarrow> polygon \<Rightarrow> jsnum" where
  "maxx D poly = snd (extent D (map fst poly))"

definition miny :: "deps \<Rightarrow> polygon \<Rightarrow> jsnum" where
  "miny D poly = fst (extent D (map snd poly))"

definition maxy :: "deps \<Rightarrow> polygon \<Rightarrow> jsnum" where
  "maxy D poly = snd (extent D (map snd poly))"

definition boxWidth :: "deps \<Rightarrow> polygon \<Rightarrow> jsnum" where
  "boxWidth D poly = js_sub (maxx D poly) (minx D poly)"

definition boxHeight :: "deps \<Rightarrow> polygon \<Rightarrow> jsnum" where
  "boxHeight D poly = js_sub (maxy D poly) (miny D poly)"

definition widthStep :: "deps \<Rightarrow> polygon \<Rightarrow> jsnum" where
  "widthStep D poly = js_div (js_min (boxWidth D poly) (boxHeight D poly)) (Fin 50)"

text \<open>
  \<^verbatim>\<open>if (!origins.length) { ... }\<close>: the centroid, if it is inside, then the sampled
  points.
\<close>

definition populate_origins ::
  "deps \<Rightarrow> (nat \<Rightarrow> jsnum) \<Rightarrow> options \<Rightarrow> polygon \<Rightarrow> point list option" where
  "populate_origins D rnd opts poly =
     (if origins (opt_origin opts) = []
      then
        (let centroid = polygonCentroid D poly
         in sample_origins D rnd poly (boxWidth D poly) (boxHeight D poly)
              (minx D poly) (miny D poly) (nTries opts) 0
              (if pointInPoly D centroid poly then [centroid] else []))
      else Some (origins (opt_origin opts)))"

text \<open>\<^verbatim>\<open>return options.events ? Object.assign(maxRect || {}, {events}) : maxRect\<close>\<close>

definition finish :: "options \<Rightarrow> state \<Rightarrow> result" where
  "finish opts st =
     (if opt_events opts then Traced (maxRect st) (events st)
      else (case maxRect st of None \<Rightarrow> Null | Some r \<Rightarrow> Rect r))"

text \<open>
  The polygon that the search works on:
  \<^verbatim>\<open>if (tolerance > 0) poly = simplify(poly, tolerance)\<close>.
\<close>

definition simplified :: "deps \<Rightarrow> options \<Rightarrow> polygon \<Rightarrow> polygon" where
  "simplified D opts poly =
     (let tol = js_mul (js_min (boxWidth D poly) (boxHeight D poly)) (tolerance opts)
      in if js_gt tol (Fin 0) then simplify D poly tol else poly)"

text \<open>The search variables when the loop over the angles starts.\<close>

definition initial :: "options \<Rightarrow> polygon \<Rightarrow> point list \<Rightarrow> state" where
  "initial opts poly os =
     push_event (opt_events opts) (EvOrigins os)
       (push_event (opt_events opts) (EvSimplify poly)
          \<lparr>maxArea = Fin 0, maxRect = None, events = []\<rparr>)"

text \<open>
  The exported function. The result is paired with what was written to the console;
  \<open>None\<close> means that the call does not return.
\<close>

definition largestRect ::
  "deps \<Rightarrow> (nat \<Rightarrow> jsnum) \<Rightarrow> polygon \<Rightarrow> user_options \<Rightarrow> (result \<times> console_msg list) option" where
  "largestRect D rnd poly0 u =
     (if length poly0 < 3
      then Some (Null, if u_verbose u = Some True then [TooFewPoints poly0] else [])
      else
        (let opts = with_defaults D u;
             area0 = js_abs (polygonArea D poly0)
         in if js_eq area0 (Fin 0)
            then Some (Null, if verbose opts then [ZeroArea poly0] else [])
            else
              (let poly = simplified D opts poly0
               in case populate_origins D rnd opts poly of
                    None \<Rightarrow> None
                  | Some os \<Rightarrow>
                      (case for_angles D opts poly area0 (widthStep D poly) os (angles D opts)
                              (initial opts poly os) of
                         None \<Rightarrow> None
                       | Some st \<Rightarrow> Some (finish opts st, [])))))"

text \<open>The rectangle that a result carries, if any.\<close>

fun candidate_of :: "result \<Rightarrow> candidate option" where
  "candidate_of Null = None"
| "candidate_of (Rect c) = Some c"
| "candidate_of (Traced c evs) = c"

section \<open>The imported functions, from their descriptions\<close>

text \<open>
  The theorems below hold for every choice of the imported functions. To run the search
  on concrete polygons, this section gives one choice, written from the specification's
  description of each function.
\<close>

fun js_cos :: "jsnum \<Rightarrow> jsnum" where
  "js_cos (Fin a) = Fin (cos a)"
| "js_cos _ = NaN"

fun js_sin :: "jsnum \<Rightarrow> jsnum" where
  "js_sin (Fin a) = Fin (sin a)"
| "js_sin _ = NaN"

text \<open>
  Modelled from the spec: \<^verbatim>\<open>squaredDistance\<close> (module \<^verbatim>\<open>./squaredDistance\<close>, not in
  the sources), the sum of the squared coordinate differences.
\<close>

definition squaredDistance_spec :: "point \<Rightarrow> point \<Rightarrow> jsnum" where
  "squaredDistance_spec p q =
     (let dx = js_sub (fst p) (fst q); dy = js_sub (snd p) (snd q)
      in js_add (js_mul dx dx) (js_mul dy dy))"

text \<open>
  Modelled from the spec: \<^verbatim>\<open>rotatePoly\<close> (module \<^verbatim>\<open>./rotatePoly\<close>, not in the
  sources), the standard rotation of every point about the pivot.
\<close>

definition rotatePoint_spec :: "point \<Rightarrow> jsnum \<Rightarrow> point \<Rightarrow> point" where
  "rotatePoint_spec p alpha pivot =
     (let c = js_cos alpha; s = js_sin alpha;
          xs = js_sub (fst p) (fst pivot); ys = js_sub (snd p) (snd pivot)
      in (js_add (js_sub (js_mul c xs) (js_mul s ys)) (fst pivot),
          js_add (js_add (js_mul s xs) (js_mul c ys)) (snd pivot)))"

definition rotatePoly_spec :: "polygon \<Rightarrow> jsnum \<Rightarrow> point \<Rightarrow> polygon" where
  "rotatePoly_spec poly alpha pivot = map (\<lambda>p. rotatePoint_spec p alpha pivot) poly"

text \<open>
  The edges of a closed polygon, each as the pair of the previous vertex and the vertex,
  starting with the closing edge from the last vertex to the first.
\<close>

definition closing :: "polygon \<Rightarrow> (point \<times> point) list" where
  "closing poly = (case poly of [] \<Rightarrow> [] | _ \<Rightarrow> zip (last poly # butlast poly) poly)"

text \<open>
  Modelled from the spec: \<^verbatim>\<open>polygonArea\<close> (package d3-polygon, not in the sources),
  the signed area by the shoelace formula.
\<close>

definition polygonArea_spec :: "polygon \<Rightarrow> jsnum" where
  "polygonArea_spec poly =
     js_div (fold (\<lambda>(a, b) acc. js_add acc (js_sub (js_mul (snd a) (fst b)) (js_mul (fst a) (snd b))))
               (closing poly) (Fin 0)) (Fin 2)"

text \<open>
  Modelled from the spec: \<^verbatim>\<open>polygonCentroid\<close> (package d3-polygon, not in the sources),
  the area-weighted centroid.
\<close>

definition polygonCentroid_spec :: "polygon \<Rightarrow> point" where
  "polygonCentroid_spec poly =
     (let acc = fold (\<lambda>(a, b) (x, y, k).
                   (let c = js_sub (js_mul (fst a) (snd b)) (js_mul (fst b) (snd a))
                    in (js_add x (js_mul (js_add (fst a) (fst b)) c),
                        js_add y (js_mul (js_add (snd a) (snd b)) c),
                        js_add k c)))
                 (closing poly) (Fin 0, Fin 0, Fin 0);
          k3 = js_mul (snd (snd acc)) (Fin 3)
      in (js_div (fst acc) k3, js_div (fst (snd acc)) k3))"

text \<open>
  Modelled from the spec: \<^verbatim>\<open>extent\<close> (package d3-array, not in the sources), the
  least and the greatest of the values, \<^verbatim>\<open>NaN\<close> skipped; without a comparable value
  both are \<^verbatim>\<open>undefined\<close>, which the subtractions of the caller turn into \<^verbatim>\<open>NaN\<close>.
\<close>

definition extent_spec :: "jsnum list \<Rightarrow> jsnum \<times> jsnum" where
  "extent_spec vs =
     (case filter (\<lambda>v. v \<noteq> NaN) vs of
        [] \<Rightarrow> (NaN, NaN)
      | v # rest \<Rightarrow>
          fold (\<lambda>x (lo, hi). (if js_lt x lo then x else lo, if js_lt hi x then x else hi))
            rest (v, v))"

text \<open>
  Modelled from the spec: \<^verbatim>\<open>range\<close> (package d3-array, not in the sources), the
  values \<^verbatim>\<open>start + i * step\<close> below \<^verbatim>\<open>stop\<close>; an empty or inverted range has no
  values. Counts that do not fit 31 bits are outside this description.
\<close>

definition range_spec :: "jsnum \<Rightarrow> jsnum \<Rightarrow> jsnum \<Rightarrow> jsnum list" where
  "range_spec start stop step =
     (case js_div (js_sub stop start) step of
        Fin q \<Rightarrow> map (\<lambda>i. js_add start (js_mul (Fin (real i)) step)) [0 ..< nat \<lceil>q\<rceil>]
      | _ \<Rightarrow> [])"

text \<open>
  Modelled from the spec: \<^verbatim>\<open>pointInPoly\<close> (module \<^verbatim>\<open>./pointInPoly\<close>, not in the
  sources), the parity of the crossings of the horizontal ray from the point to
  +infinity, each edge half-open in y.
\<close>

definition crosses_ray :: "point \<Rightarrow> point \<times> point \<Rightarrow> bool" where
  "crosses_ray p e =
     (let x = fst p; y = snd p;
          xj = fst (fst e); yj = snd (fst e); xi = fst (snd e); yi = snd (snd e)
      in (js_gt yi y \<noteq> js_gt yj y) \<and>
         js_lt x (js_add (js_div (js_mul (js_sub xj xi) (js_sub y yi)) (js_sub yj yi)) xi))"

definition pointInPoly_spec :: "point \<Rightarrow> polygon \<Rightarrow> bool" where
  "pointInPoly_spec p poly = fold (\<lambda>e inside. if crosses_ray p e then \<not> inside else inside)
                               (closing poly) False"

text \<open>
  Modelled from the spec: \<^verbatim>\<open>polyInPoly\<close> (module \<^verbatim>\<open>./polyInPoly\<close>, not in the
  sources): every vertex of the inner polygon passes the point test and no edge of the
  inner polygon properly intersects an edge of the outer one. The specification leaves
  the intersection predicate open; here two segments cross when the ends of each lie
  strictly on opposite sides of the other.
\<close>

definition orient :: "point \<Rightarrow> point \<Rightarrow> point \<Rightarrow> jsnum" where
  "orient a b c =
     js_sub (js_mul (js_sub (fst b) (fst a)) (js_sub (snd c) (snd a)))
            (js_mul (js_sub (snd b) (snd a)) (js_sub (fst c) (fst a)))"

definition segments_cross :: "point \<times> point \<Rightarrow> point \<times> point \<Rightarrow> bool" where
  "segments_cross e f =
     (js_lt (js_mul (orient (fst e) (snd e) (fst f)) (orient (fst e) (snd e) (snd f))) (Fin 0) \<and>
      js_lt (js_mul (orient (fst f) (snd f) (fst e)) (orient (fst f) (snd f) (snd e))) (Fin 0))"

definition polyInPoly_spec :: "polygon \<Rightarrow> polygon \<Rightarrow> bool" where
  "polyInPoly_spec inner outer =
     ((\<forall>p \<in> set inner. pointInPoly_spec p outer) \<and>
      (\<forall>e \<in> set (closing inner). \<forall>f \<in> set (closing outer). \<not> segments_cross e f))"

text \<open>
  Modelled from the spec: \<^verbatim>\<open>rayIntersectsPoly\<close> (module \<^verbatim>\<open>./rayIntersectsPoly\<close>, not
  in the sources): the line through the origin at the given angle is cut with every edge
  once; on each side of the origin the nearest intersection point is returned, or null.
  An edge parallel to the line gives no point. The parameter \<open>t\<close> of a hit is its signed
  distance from the origin along the line.
\<close>

definition hit :: "point \<Rightarrow> jsnum \<Rightarrow> point \<times> point \<Rightarrow> (jsnum \<times> point) option" where
  "hit origin alpha e =
     (let dx = js_cos alpha; dy = js_sin alpha;
          a = fst e; b = snd e;
          ex = js_sub (fst b) (fst a); ey = js_sub (snd b) (snd a);
          wx = js_sub (fst a) (fst origin); wy = js_sub (snd a) (snd origin);
          den = js_sub (js_mul dx ey) (js_mul dy ex);
          t = js_div (js_sub (js_mul wx ey) (js_mul wy ex)) den;
          s = js_div (js_sub (js_mul wx dy) (js_mul wy dx)) den
      in if js_eq den (Fin 0) then None
         else if js_ge s (Fin 0) \<and> js_ge (Fin 1) s
         then Some (t, (js_add (fst origin) (js_mul t dx), js_add (snd origin) (js_mul t dy)))
         else None)"

definition nearer :: "(jsnum \<times> point) option \<Rightarrow> jsnum \<times> point \<Rightarrow> (jsnum \<times> point) option" where
  "nearer best h =
     (case best of
        None \<Rightarrow> Some h
      | Some b \<Rightarrow> if js_lt (js_abs (fst h)) (js_abs (fst b)) then Some h else Some b)"

definition rayIntersectsPoly_spec :: "polygon \<Rightarrow> point \<Rightarrow> jsnum \<Rightarrow> point option \<times> point option" where
  "rayIntersectsPoly_spec poly origin alpha =
     (let best = fold (\<lambda>e (l, r).
                    (case hit origin alpha e of
                       None \<Rightarrow> (l, r)
                     | Some h \<Rightarrow>
                         if js_lt (fst h) (Fin 0) then (nearer l h, r)
                         else if js_gt (fst h) (Fin 0) then (l, nearer r h)
                         else (l, r)))
                  (closing poly) (None, None)
      in (map_option snd (fst best), map_option snd (snd best)))"

text \<open>
  Modelled from the spec: \<^verbatim>\<open>simplify\<close> (module \<^verbatim>\<open>./simplify\<close>, not in the sources):
  the first and the last point are kept; between two kept points the point farthest from
  their chord is kept, and the chain split there, if it is farther than the tolerance,
  and all points between are discarded otherwise. Two points or fewer are returned
  unchanged.
\<close>

definition chord_sqdist :: "point \<Rightarrow> point \<Rightarrow> point \<Rightarrow> jsnum" where
  "chord_sqdist a b p =
     (let len2 = squaredDistance_spec a b
      in if js_eq len2 (Fin 0) then squaredDistance_spec p a
         else js_div (js_mul (orient a b p) (orient a b p)) len2)"

definition farthest :: "point \<Rightarrow> point \<Rightarrow> point list \<Rightarrow> nat \<times> jsnum" where
  "farthest a b inner =
     fold (\<lambda>(i, p) (bi, bd). if js_lt bd (chord_sqdist a b p) then (i, chord_sqdist a b p) else (bi, bd))
       (zip [0 ..< length inner] inner) (0, Fin 0)"

function simplify_spec :: "polygon \<Rightarrow> jsnum \<Rightarrow> polygon" where
  "simplify_spec pts tol =
     (if length pts \<le> 2 then pts
      else
        (let far = farthest (hd pts) (last pts) (butlast (tl pts));
             i = min (fst far) (length pts - 3)
         in if js_gt (snd far) (js_mul tol tol)
            then butlast (simplify_spec (take (i + 2) pts) tol) @ simplify_spec (drop (i + 1) pts) tol
            else [hd pts, last pts]))"
  by pat_completeness auto
termination
  by (relation "measure (\<lambda>(pts, tol). length pts)") auto

text \<open>
  \<^verbatim>\<open>Number\<close> of a string, for the empty string and for decimal digits with an optional
  minus sign; every other string is taken as not a number.
\<close>

definition digit :: "char \<Rightarrow> nat option" where
  "digit c = (let n = of_char c :: nat in if 48 \<le> n \<and> n \<le> 57 then Some (n - 48) else None)"

fun digits :: "nat \<Rightarrow> string \<Rightarrow> nat option" where
  "digits acc [] = Some acc"
| "digits acc (c # cs) = (case digit c of None \<Rightarrow> None | Some d \<Rightarrow> digits (10 * acc + d) cs)"

definition toNumber_spec :: "string \<Rightarrow> jsnum" where
  "toNumber_spec s =
     (case s of
        [] \<Rightarrow> Fin 0
      | c # cs \<Rightarrow>
          if c = CHR ''-'' \<and> cs \<noteq> []
          then (case digits 0 cs of None \<Rightarrow> NaN | Some n \<Rightarrow> Fin (- real n))
          else (case digits 0 s of None \<Rightarrow> NaN | Some n \<Rightarrow> Fin (real n)))"

definition reference :: deps where
  "reference = \<lparr>
     extent = extent_spec,
     range = range_spec,
     polygonArea = polygonArea_spec,
     polygonCentroid = polygonCentroid_spec,
     pointInPoly = pointInPoly_spec,
     polyInPoly = polyInPoly_spec,
     rayIntersectsPoly = rayIntersectsPoly_spec,
     rotatePoly = rotatePoly_spec,
     simplify = simplify_spec,
     squaredDistance = squaredDistance_spec,
     toNumber = toNumber_spec \<rparr>"


section \<open>Reasoning about the loops\<close>

text \<open>The condition of the \<^verbatim>\<open>while\<close> loop, and the events that only a probe pushes.\<close>

definition loop_cond :: "jsnum \<Rightarrow> jsnum \<times> jsnum \<times> state \<Rightarrow> bool" where
  "loop_cond ws lrs = js_ge (js_sub (fst (snd lrs)) (fst lrs)) ws"

fun is_probe_event :: "event \<Rightarrow> bool" where
  "is_probe_event (EvRectangle f x y w h a b) = True"
| "is_probe_event _ = False"

text \<open>
  What the search writes into a recorded rectangle: the rectangle of that centre, size
  and angle, rotated, is \<open>rectPoly_of\<close>; \<open>recorded\<close> says that the rectangle comes from
  a probe at one of the angles and at a recentred origin of one of the centres, and that
  the probe passed the containment test.
\<close>

definition rectPoly_of :: "deps \<Rightarrow> candidate \<Rightarrow> polygon" where
  "rectPoly_of D c =
     rotatePoly D (corners (cx c, cy c) (width c) (height c)) (to_angleRad (angle c)) (cx c, cy c)"

definition recorded :: "deps \<Rightarrow> polygon \<Rightarrow> jsnum list \<Rightarrow> point list \<Rightarrow> candidate \<Rightarrow> bool" where
  "recorded D poly angs os c =
     (angle c \<in> set angs \<and>
      (\<exists>orig \<in> set os. (cx c, cy c) \<in> set (modifOrigins D poly (to_angleRad (angle c)) orig)) \<and>
      area c = js_mul (width c) (height c) \<and>
      points c = push_first (rectPoly_of D c) \<and>
      polyInPoly D (rectPoly_of D c) poly)"

lemma maxArea_push_event [simp]: "maxArea (push_event on e st) = maxArea st"
  by (simp add: push_event_def)

lemma maxRect_push_event [simp]: "maxRect (push_event on e st) = maxRect st"
  by (simp add: push_event_def)

text \<open>The rule of the \<^verbatim>\<open>while\<close> loop: an invariant \<open>J\<close> of the body gives \<open>Q\<close> on exit.\<close>

lemma binary_search_rule:
  assumes step: "\<And>lrs. J lrs \<Longrightarrow> loop_cond ws lrs \<Longrightarrow>
                   J (probe D opts poly area0 ang ar origin aR lrs)"
    and exit: "\<And>lrs. J lrs \<Longrightarrow> \<not> loop_cond ws lrs \<Longrightarrow> Q (snd (snd lrs))"
    and run: "binary_search D opts poly area0 ws ang ar origin aR lrs = Some st'"
    and init: "J lrs"
  shows "Q st'"
proof -
  have "(D, opts, poly, area0, ws, ang, ar, origin, aR) = (D, opts, poly, area0, ws, ang, ar, origin, aR)
          \<longrightarrow> J lrs \<longrightarrow> Q st'"
  proof (rule binary_search.raw_induct
      [OF _ run, where P = "\<lambda>D' o' p' a' w' an' ar' or' aR' l y.
          (D', o', p', a', w', an', ar', or', aR') = (D, opts, poly, area0, ws, ang, ar, origin, aR)
            \<longrightarrow> J l \<longrightarrow> Q y"], goal_cases)
    case (1 f D' o' p' a' w' an' ar' or' aR' l y)
    show ?case
    proof (intro impI)
      assume eq: "(D', o', p', a', w', an', ar', or', aR') = (D, opts, poly, area0, ws, ang, ar, origin, aR)"
        and j: "J l"
      show "Q y"
      proof (cases "loop_cond ws l")
        case True
        with 1(2) eq have "f D opts poly area0 ws ang ar origin aR (probe D opts poly area0 ang ar origin aR l) = Some y"
          by (simp add: loop_cond_def)
        from 1(1)[OF this] step[OF j True] show ?thesis by simp
      next
        case False
        with 1(2) eq have "y = snd (snd l)" by (simp add: loop_cond_def)
        with exit[OF j False] show ?thesis by simp
      qed
    qed
  qed
  with init show ?thesis by simp
qed



text \<open>
  The rule of the whole search: a property \<open>I\<close> of the search variables that the pushes
  of the other events keep, and that each binary search keeps through an invariant \<open>J\<close>
  of its loop, holds after the loop over the angles.
\<close>

lemma search_invariant:
  fixes I :: "state \<Rightarrow> bool"
    and J :: "jsnum \<Rightarrow> point \<Rightarrow> jsnum \<Rightarrow> jsnum \<times> jsnum \<times> state \<Rightarrow> bool"
  assumes ev: "\<And>on e st. \<not> is_probe_event e \<Longrightarrow> I st \<Longrightarrow> I (push_event on e st)"
    and entry: "\<And>ang orig origin aRatio a b st.
        ang \<in> set angs \<Longrightarrow> orig \<in> set os \<Longrightarrow>
        origin \<in> set (modifOrigins D poly (to_angleRad ang) orig) \<Longrightarrow> I st \<Longrightarrow>
        J ang origin aRatio
          (js_max (minWidth opts) (js_sqrt (js_mul (maxArea st) aRatio)),
           js_min (js_mul (Fin 2) (js_sqrt a)) (js_mul (js_mul (Fin 2) (js_sqrt b)) aRatio), st)"
    and step: "\<And>ang orig origin aRatio lrs.
        ang \<in> set angs \<Longrightarrow> orig \<in> set os \<Longrightarrow>
        origin \<in> set (modifOrigins D poly (to_angleRad ang) orig) \<Longrightarrow>
        J ang origin aRatio lrs \<Longrightarrow> loop_cond ws lrs \<Longrightarrow>
        J ang origin aRatio (probe D opts poly area0 ang (to_angleRad ang) origin aRatio lrs)"
    and exit: "\<And>ang origin aRatio lrs.
        J ang origin aRatio lrs \<Longrightarrow> \<not> loop_cond ws lrs \<Longrightarrow> I (snd (snd lrs))"
    and run: "for_angles D opts poly area0 ws os angs st = Some st'"
    and init: "I st"
  shows "I st'"
proof -
  have ratios: "I s'"
    if "ang \<in> set angs" "orig \<in> set os"
      "origin \<in> set (modifOrigins D poly (to_angleRad ang) orig)"
      "for_aRatios D opts poly area0 ws ang (to_angleRad ang) origin
         (js_mul (Fin 2) (js_sqrt a)) (js_mul (Fin 2) (js_sqrt b)) rs s = Some s'" "I s"
    for ang orig origin a b rs s s'
    using that(4,5)
  proof (induction rs arbitrary: s)
    case Nil
    then show ?case by simp
  next
    case (Cons aRatio rest)
    let ?l = "js_max (minWidth opts) (js_sqrt (js_mul (maxArea s) aRatio))"
    let ?r = "js_min (js_mul (Fin 2) (js_sqrt a)) (js_mul (js_mul (Fin 2) (js_sqrt b)) aRatio)"
    show ?case
    proof (cases "js_lt (js_mul ?r (js_mul (Fin 2) (js_sqrt b))) (maxArea s)")
      case True
      with Cons.prems(1) have "for_aRatios D opts poly area0 ws ang (to_angleRad ang) origin
         (js_mul (Fin 2) (js_sqrt a)) (js_mul (Fin 2) (js_sqrt b)) rest s = Some s'"
        by (simp add: Let_def)
      from Cons.IH[OF this Cons.prems(2)] show ?thesis .
    next
      case False
      let ?s1 = "push_event (opt_events opts \<and> js_ge (js_sub ?r ?l) ws) (EvARatio aRatio) s"
      from False Cons.prems(1) obtain s2 where
        bs: "binary_search D opts poly area0 ws ang (to_angleRad ang) origin aRatio (?l, ?r, ?s1) = Some s2"
        and rest: "for_aRatios D opts poly area0 ws ang (to_angleRad ang) origin
         (js_mul (Fin 2) (js_sqrt a)) (js_mul (Fin 2) (js_sqrt b)) rest s2 = Some s'"
        by (auto simp: Let_def split: option.splits)
      have "I ?s1" using ev[of "EvARatio aRatio" s] Cons.prems(2) by simp
      from entry[OF that(1,2,3) this, of aRatio a b]
      have j0: "J ang origin aRatio (?l, ?r, ?s1)" by simp
      have "I s2"
        by (rule binary_search_rule[where J = "J ang origin aRatio" and Q = I, OF _ _ bs j0])
          (use step[OF that(1,2,3)] exit in auto)
      from Cons.IH[OF rest this] show ?thesis .
    qed
  qed
  have origin1: "I s'"
    if "ang \<in> set angs" "orig \<in> set os"
      "origin \<in> set (modifOrigins D poly (to_angleRad ang) orig)"
      "try_origin D opts poly area0 ws ang (to_angleRad ang) origin s = Some s'" "I s"
    for ang orig origin s s'
  proof -
    have i1: "I (push_event (opt_events opts) (EvOrigin (fst origin) (snd origin)) s)"
      using ev that(5) by simp
    from that(4) show ?thesis
      unfolding try_origin_def Let_def
      by (auto split: prod.splits option.splits if_splits
          intro: i1 ratios[OF that(1,2,3) _ i1])
  qed
  have modif: "I s'"
    if "ang \<in> set angs" "orig \<in> set os"
      "set ms \<subseteq> set (modifOrigins D poly (to_angleRad ang) orig)"
      "for_modifOrigins D opts poly area0 ws ang (to_angleRad ang) ms s = Some s'" "I s"
    for ang orig ms s s'
    using that(3,4,5)
  proof (induction ms arbitrary: s)
    case Nil
    then show ?case by simp
  next
    case (Cons origin rest)
    from Cons.prems(2) obtain s1 where
      a: "try_origin D opts poly area0 ws ang (to_angleRad ang) origin s = Some s1"
      and b: "for_modifOrigins D opts poly area0 ws ang (to_angleRad ang) rest s1 = Some s'"
      by (auto split: option.splits)
    from Cons.prems(1) have mem: "origin \<in> set (modifOrigins D poly (to_angleRad ang) orig)"
      and sub: "set rest \<subseteq> set (modifOrigins D poly (to_angleRad ang) orig)" by auto
    from origin1[OF that(1,2) mem a Cons.prems(3)] have "I s1" .
    from Cons.IH[OF sub b this] show ?case .
  qed
  have origs: "I s'"
    if "ang \<in> set angs" "snd ` set ips \<subseteq> set os"
      "for_origins D opts poly area0 ws ang (to_angleRad ang) ips s = Some s'" "I s"
    for ang ips s s'
    using that(2,3,4)
  proof (induction ips arbitrary: s)
    case Nil
    then show ?case by simp
  next
    case (Cons ip rest)
    from Cons.prems(2) obtain s1 where
      a: "each_origin D opts poly area0 ws ang (to_angleRad ang) ip s = Some s1"
      and b: "for_origins D opts poly area0 ws ang (to_angleRad ang) rest s1 = Some s'"
      by (auto split: option.splits)
    from Cons.prems(1) have mem: "snd ip \<in> set os" and sub: "snd ` set rest \<subseteq> set os" by auto
    have "I s1"
      using a unfolding each_origin_def Let_def
      by (rule modif[OF that(1) mem subset_refl]) (use ev Cons.prems(3) in simp)
    from Cons.IH[OF sub b this] show ?case .
  qed
  have angsI: "I s'"
    if "set as \<subseteq> set angs" "for_angles D opts poly area0 ws os as s = Some s'" "I s"
    for as s s'
    using that
  proof (induction as arbitrary: s)
    case Nil
    then show ?case by simp
  next
    case (Cons ang rest)
    from Cons.prems(2) obtain s1 where
      a: "each_angle D opts poly area0 ws os ang s = Some s1"
      and b: "for_angles D opts poly area0 ws os rest s1 = Some s'"
      by (auto split: option.splits)
    from Cons.prems(1) have mem: "ang \<in> set angs" and sub: "set rest \<subseteq> set angs" by auto
    have z: "snd ` set (zip [0 ..< length os] os) \<subseteq> set os"
      by (auto dest: set_zip_rightD)
    have "I s1"
      using a unfolding each_angle_def
      by (rule origs[OF mem z]) (use ev Cons.prems(3) in simp)
    from Cons.IH[OF sub b this] show ?case .
  qed
  from angsI[OF subset_refl run init] show ?thesis .
qed


lemma search_recorded:
  assumes run: "for_angles D opts poly area0 ws os angs st = Some st'"
    and init: "maxRect st = None"
  shows "\<forall>c. maxRect st' = Some c \<longrightarrow> recorded D poly angs os c"
proof (rule search_invariant
    [where I = "\<lambda>s. \<forall>c. maxRect s = Some c \<longrightarrow> recorded D poly angs os c"
       and J = "\<lambda>ang origin aRatio lrs.
                  \<forall>c. maxRect (snd (snd lrs)) = Some c \<longrightarrow> recorded D poly angs os c",
     OF _ _ _ _ run], goal_cases)
  case (3 ang orig origin aRatio lrs)
  then show ?case
    by (auto simp: probe_def Let_def recorded_def rectPoly_of_def)
qed (use init in simp_all)

lemma maxRect_initial [simp]: "maxRect (initial opts poly os) = None"
  by (simp add: initial_def)

lemma maxArea_initial [simp]: "maxArea (initial opts poly os) = Fin 0"
  by (simp add: initial_def)

lemma candidate_of_finish [simp]: "candidate_of (finish opts st) = maxRect st"
  by (simp add: finish_def split: option.splits)

lemma largestRect_candidate:
  assumes "largestRect D rnd poly0 u = Some (res, msgs)" and "candidate_of res = Some c"
  shows "\<exists>os st. populate_origins D rnd (with_defaults D u) (simplified D (with_defaults D u) poly0) = Some os \<and>
           for_angles D (with_defaults D u) (simplified D (with_defaults D u) poly0)
             (js_abs (polygonArea D poly0)) (widthStep D (simplified D (with_defaults D u) poly0)) os
             (angles D (with_defaults D u))
             (initial (with_defaults D u) (simplified D (with_defaults D u) poly0) os) = Some st \<and>
           res = finish (with_defaults D u) st \<and> maxRect st = Some c"
  using assms unfolding largestRect_def Let_def
  by (auto split: if_splits option.splits)

lemma largestRect_recorded:
  assumes "largestRect D rnd poly0 u = Some (res, msgs)" and "candidate_of res = Some c"
  shows "\<exists>os. populate_origins D rnd (with_defaults D u) (simplified D (with_defaults D u) poly0) = Some os \<and>
           recorded D (simplified D (with_defaults D u) poly0) (angles D (with_defaults D u)) os c"
proof -
  from largestRect_candidate[OF assms] obtain os st where
    a: "populate_origins D rnd (with_defaults D u) (simplified D (with_defaults D u) poly0) = Some os"
    and b: "for_angles D (with_defaults D u) (simplified D (with_defaults D u) poly0)
             (js_abs (polygonArea D poly0)) (widthStep D (simplified D (with_defaults D u) poly0)) os
             (angles D (with_defaults D u))
             (initial (with_defaults D u) (simplified D (with_defaults D u) poly0) os) = Some st"
    and c: "maxRect st = Some c" by blast
  from search_recorded[OF b] c a show ?thesis by auto
qed

lemma largestRect_cases:
  assumes "largestRect D rnd poly0 u = Some (res, msgs)"
  shows "res = Null \<or>
         (\<exists>os st. for_angles D (with_defaults D u) (simplified D (with_defaults D u) poly0)
                    (js_abs (polygonArea D poly0))
                    (widthStep D (simplified D (with_defaults D u) poly0)) os
                    (angles D (with_defaults D u))
                    (initial (with_defaults D u) (simplified D (with_defaults D u) poly0) os) = Some st \<and>
                  res = finish (with_defaults D u) st)"
proof (cases "length poly0 < 3 \<or> js_eq (js_abs (polygonArea D poly0)) (Fin 0)")
  case True
  with assms have "res = Null"
    by (auto simp: largestRect_def Let_def split: if_splits)
  then show ?thesis by simp
next
  case False
  let ?o = "with_defaults D u"
  let ?p = "simplified D ?o poly0"
  from False assms have a: "(case populate_origins D rnd ?o ?p of
                    None \<Rightarrow> None
                  | Some os \<Rightarrow>
                      (case for_angles D ?o ?p (js_abs (polygonArea D poly0)) (widthStep D ?p) os
                              (angles D ?o) (initial ?o ?p os) of
                         None \<Rightarrow> None
                       | Some st \<Rightarrow> Some (finish ?o st, []))) = Some (res, msgs)"
    by (simp add: largestRect_def Let_def)
  then obtain os where o: "populate_origins D rnd ?o ?p = Some os"
    by (cases "populate_origins D rnd ?o ?p") simp_all
  with a obtain st where
    "for_angles D ?o ?p (js_abs (polygonArea D poly0)) (widthStep D ?p) os
       (angles D ?o) (initial ?o ?p os) = Some st" "res = finish ?o st"
    by (cases "for_angles D ?o ?p (js_abs (polygonArea D poly0)) (widthStep D ?p) os
       (angles D ?o) (initial ?o ?p os)") simp_all
  then show ?thesis by blast
qed

text \<open>
  The contract of the containment test, for a notion \<open>crosses\<close> of two edges crossing:
  a polygon that passes has every vertex inside the outer polygon and no edge that
  crosses an edge of the outer polygon.
\<close>

definition containment_contract :: "deps \<Rightarrow> (point \<times> point \<Rightarrow> point \<times> point \<Rightarrow> bool) \<Rightarrow> bool" where
  "containment_contract D crosses =
     (\<forall>inner outer. polyInPoly D inner outer \<longrightarrow>
        (\<forall>p \<in> set inner. pointInPoly D p outer) \<and>
        (\<forall>e \<in> set (closing inner). \<forall>f \<in> set (closing outer). \<not> crosses e f))"

text \<open>An \<^verbatim>\<open>options.angle\<close> that is no array, no number and no string that parses as a number.\<close>

definition malformed :: "deps \<Rightarrow> numarg \<Rightarrow> bool" where
  "malformed D a = (case a of Other \<Rightarrow> True | Str s \<Rightarrow> toNumber D s = NaN | _ \<Rightarrow> False)"

lemma malformed_numlist: "malformed D a \<Longrightarrow> numlist D a = []"
  by (cases a) (auto simp: malformed_def)

lemma malformed_angles: "malformed D (u_angle u) \<Longrightarrow> angles D (with_defaults D u) = []"
  by (cases "u_angle u") (auto simp: malformed_def angles_def with_defaults_def)

lemma binary_search_continue:
  "js_ge (js_sub r l) ws \<Longrightarrow>
   binary_search D opts poly area0 ws ang ar origin aR (l, r, st) =
   binary_search D opts poly area0 ws ang ar origin aR
     (probe D opts poly area0 ang ar origin aR (l, r, st))"
  by (subst binary_search.simps) simp

lemma binary_search_stop:
  "\<not> js_ge (js_sub r l) ws \<Longrightarrow>
   binary_search D opts poly area0 ws ang ar origin aR (l, r, st) = Some st"
  by (subst binary_search.simps) simp

lemma try_origin_both_hit:
  assumes "rayIntersectsPoly D poly origin angleRad = (Some p1W, Some p2W)"
    and "rayIntersectsPoly D poly origin (js_add angleRad (js_div PI (Fin 2))) = (Some p1H, Some p2H)"
    and "js_mul (Fin 2) (js_sqrt (js_min (squaredDistance D origin p1W)
                                    (squaredDistance D origin p2W))) = mw"
    and "js_mul (Fin 2) (js_sqrt (js_min (squaredDistance D origin p1H)
                                    (squaredDistance D origin p2H))) = mh"
    and "aspectRatios D opts = r # rs"
  shows "try_origin D opts poly area0 ws ang angleRad origin st =
     (if js_lt (js_mul mw mh) (maxArea st)
      then Some (push_event (opt_events opts) (EvOrigin (fst origin) (snd origin)) st)
      else for_aRatios D opts poly area0 ws ang angleRad origin mw mh (r # rs)
             (push_event (opt_events opts) (EvOrigin (fst origin) (snd origin)) st))"
  using assms by (simp add: try_origin_def Let_def)


section \<open>Diagnostic events\<close>

text \<open>
  The search variables without the trace, and two option records that differ at most in
  \<^verbatim>\<open>events\<close>.
\<close>

definition core :: "state \<Rightarrow> jsnum \<times> candidate option" where
  "core st = (maxArea st, maxRect st)"

definition same_search :: "options \<Rightarrow> options \<Rightarrow> bool" where
  "same_search a b = (a\<lparr>opt_events := False\<rparr> = b\<lparr>opt_events := False\<rparr>)"

definition sim :: "jsnum \<times> jsnum \<times> state \<Rightarrow> jsnum \<times> jsnum \<times> state \<Rightarrow> bool" where
  "sim x y = (fst y = fst x \<and> fst (snd y) = fst (snd x) \<and> core (snd (snd y)) = core (snd (snd x)))"

lemma core_push_event [simp]: "core (push_event on e st) = core st"
  by (simp add: core_def)

lemma same_search_fields:
  assumes "same_search a b"
  shows "minWidth a = minWidth b" "minHeight a = minHeight b"
    "minAspectRatio a = minAspectRatio b" "maxAspectRatio a = maxAspectRatio b"
    "opt_aspectRatio a = opt_aspectRatio b" "opt_angle a = opt_angle b"
    "opt_origin a = opt_origin b" "nTries a = nTries b" "tolerance a = tolerance b"
proof -
  from assms have e: "a\<lparr>opt_events := False\<rparr> = b\<lparr>opt_events := False\<rparr>"
    by (simp add: same_search_def)
  from arg_cong[OF e, of minWidth] show "minWidth a = minWidth b" by simp
  from arg_cong[OF e, of minHeight] show "minHeight a = minHeight b" by simp
  from arg_cong[OF e, of minAspectRatio] show "minAspectRatio a = minAspectRatio b" by simp
  from arg_cong[OF e, of maxAspectRatio] show "maxAspectRatio a = maxAspectRatio b" by simp
  from arg_cong[OF e, of opt_aspectRatio] show "opt_aspectRatio a = opt_aspectRatio b" by simp
  from arg_cong[OF e, of opt_angle] show "opt_angle a = opt_angle b" by simp
  from arg_cong[OF e, of opt_origin] show "opt_origin a = opt_origin b" by simp
  from arg_cong[OF e, of nTries] show "nTries a = nTries b" by simp
  from arg_cong[OF e, of tolerance] show "tolerance a = tolerance b" by simp
qed

lemma probe_sim:
  "sim x y \<Longrightarrow> sim (probe D a poly area0 ang ar origin aR x) (probe D b poly area0 ang ar origin aR y)"
  by (auto simp: sim_def probe_def Let_def core_def)

lemma loop_cond_sim: "sim x y \<Longrightarrow> loop_cond ws y = loop_cond ws x"
  by (simp add: sim_def loop_cond_def)

lemma binary_search_sim:
  assumes run: "binary_search D a poly area0 ws ang ar origin aR x = Some s"
    and xy: "sim x y"
  shows "\<exists>t. binary_search D b poly area0 ws ang ar origin aR y = Some t \<and> core t = core s"
proof (rule binary_search_rule
    [where J = "\<lambda>x'. \<exists>y'. sim x' y' \<and>
                  binary_search D b poly area0 ws ang ar origin aR y' =
                  binary_search D b poly area0 ws ang ar origin aR y"
       and Q = "\<lambda>s. \<exists>t. binary_search D b poly area0 ws ang ar origin aR y = Some t \<and> core t = core s",
     OF _ _ run], goal_cases)
  case (1 x')
  then obtain y' where s: "sim x' y'"
    and e: "binary_search D b poly area0 ws ang ar origin aR y' =
            binary_search D b poly area0 ws ang ar origin aR y" by blast
  from 1(2) loop_cond_sim[OF s] have c: "loop_cond ws y'" by simp
  have "binary_search D b poly area0 ws ang ar origin aR (probe D b poly area0 ang ar origin aR y') =
        binary_search D b poly area0 ws ang ar origin aR y'"
    using c by (subst (2) binary_search.simps) (simp add: loop_cond_def)
  with e probe_sim[OF s] show ?case by metis
next
  case (2 x')
  then obtain y' where s: "sim x' y'"
    and e: "binary_search D b poly area0 ws ang ar origin aR y' =
            binary_search D b poly area0 ws ang ar origin aR y" by blast
  from 2(2) loop_cond_sim[OF s] have c: "\<not> loop_cond ws y'" by simp
  have "binary_search D b poly area0 ws ang ar origin aR y' = Some (snd (snd y'))"
    using c by (subst binary_search.simps) (simp add: loop_cond_def)
  with e have "binary_search D b poly area0 ws ang ar origin aR y = Some (snd (snd y'))" by simp
  with s show ?case by (simp add: sim_def)
next
  case 3
  from xy show ?case by blast
qed

lemma for_aRatios_sim:
  assumes ab: "same_search a b"
  shows "for_aRatios D a poly area0 ws ang ar origin mw mh rs s = Some s' \<Longrightarrow> core t = core s \<Longrightarrow>
         \<exists>t'. for_aRatios D b poly area0 ws ang ar origin mw mh rs t = Some t' \<and> core t' = core s'"
proof (induction rs arbitrary: s t)
  case Nil
  then show ?case by simp
next
  case (Cons aRatio rest)
  from Cons.prems(2) have m: "maxArea t = maxArea s" by (simp add: core_def)
  note w = same_search_fields(1)[OF ab]
  let ?l = "js_max (minWidth a) (js_sqrt (js_mul (maxArea s) aRatio))"
  let ?r = "js_min mw (js_mul mh aRatio)"
  show ?case
  proof (cases "js_lt (js_mul ?r mh) (maxArea s)")
    case True
    with Cons.prems(1) have "for_aRatios D a poly area0 ws ang ar origin mw mh rest s = Some s'"
      by (simp add: Let_def)
    from Cons.IH[OF this Cons.prems(2)] True m show ?thesis by (simp add: Let_def)
  next
    case False
    let ?s1 = "push_event (opt_events a \<and> js_ge (js_sub ?r ?l) ws) (EvARatio aRatio) s"
    let ?t1 = "push_event (opt_events b \<and> js_ge (js_sub ?r ?l) ws) (EvARatio aRatio) t"
    from False Cons.prems(1) obtain s2 where
      bs: "binary_search D a poly area0 ws ang ar origin aRatio (?l, ?r, ?s1) = Some s2"
      and rest: "for_aRatios D a poly area0 ws ang ar origin mw mh rest s2 = Some s'"
      by (auto simp: Let_def split: option.splits)
    have "sim (?l, ?r, ?s1) (?l, ?r, ?t1)" using Cons.prems(2) by (simp add: sim_def)
    from binary_search_sim[OF bs this, of b] obtain t2 where
      bt: "binary_search D b poly area0 ws ang ar origin aRatio (?l, ?r, ?t1) = Some t2"
      and c2: "core t2 = core s2" by blast
    from Cons.IH[OF rest c2] obtain t' where
      "for_aRatios D b poly area0 ws ang ar origin mw mh rest t2 = Some t'" "core t' = core s'"
      by blast
    with False bt m w show ?thesis by (simp add: Let_def)
  qed
qed

lemma try_origin_sim:
  assumes ab: "same_search a b"
    and run: "try_origin D a poly area0 ws ang ar origin s = Some s'"
    and c: "core t = core s"
  shows "\<exists>t'. try_origin D b poly area0 ws ang ar origin t = Some t' \<and> core t' = core s'"
proof -
  note f = same_search_fields[OF ab]
  have ar: "aspectRatios D a = aspectRatios D b" by (simp add: aspectRatios_def f)
  from c have m: "maxArea t = maxArea s" by (simp add: core_def)
  have c1: "core (push_event (opt_events b) (EvOrigin (fst origin) (snd origin)) t) =
            core (push_event (opt_events a) (EvOrigin (fst origin) (snd origin)) s)"
    using c by simp
  from run show ?thesis
    unfolding try_origin_def Let_def
    by (auto split: prod.splits option.splits if_splits simp: m f ar c
        dest: for_aRatios_sim[OF ab _ c1])
qed

lemma for_modifOrigins_sim:
  assumes ab: "same_search a b"
  shows "for_modifOrigins D a poly area0 ws ang ar ms s = Some s' \<Longrightarrow> core t = core s \<Longrightarrow>
         \<exists>t'. for_modifOrigins D b poly area0 ws ang ar ms t = Some t' \<and> core t' = core s'"
proof (induction ms arbitrary: s t)
  case Nil
  then show ?case by simp
next
  case (Cons origin rest)
  from Cons.prems(1) obtain s1 where
    x: "try_origin D a poly area0 ws ang ar origin s = Some s1"
    and y: "for_modifOrigins D a poly area0 ws ang ar rest s1 = Some s'"
    by (auto split: option.splits)
  from try_origin_sim[OF ab x Cons.prems(2)] obtain t1 where
    x': "try_origin D b poly area0 ws ang ar origin t = Some t1" and c1: "core t1 = core s1"
    by blast
  from Cons.IH[OF y c1] x' show ?case by simp
qed

lemma for_origins_sim:
  assumes ab: "same_search a b"
  shows "for_origins D a poly area0 ws ang ar ips s = Some s' \<Longrightarrow> core t = core s \<Longrightarrow>
         \<exists>t'. for_origins D b poly area0 ws ang ar ips t = Some t' \<and> core t' = core s'"
proof (induction ips arbitrary: s t)
  case Nil
  then show ?case by simp
next
  case (Cons ip rest)
  from Cons.prems(1) obtain s1 where
    x: "each_origin D a poly area0 ws ang ar ip s = Some s1"
    and y: "for_origins D a poly area0 ws ang ar rest s1 = Some s'"
    by (auto split: option.splits)
  have "\<exists>t1. each_origin D b poly area0 ws ang ar ip t = Some t1 \<and> core t1 = core s1"
    using x unfolding each_origin_def Let_def
    by (rule for_modifOrigins_sim[OF ab]) (use Cons.prems(2) in simp)
  then obtain t1 where
    x': "each_origin D b poly area0 ws ang ar ip t = Some t1" and c1: "core t1 = core s1"
    by blast
  from Cons.IH[OF y c1] x' show ?case by simp
qed

lemma for_angles_sim:
  assumes ab: "same_search a b"
  shows "for_angles D a poly area0 ws os angs s = Some s' \<Longrightarrow> core t = core s \<Longrightarrow>
         \<exists>t'. for_angles D b poly area0 ws os angs t = Some t' \<and> core t' = core s'"
proof (induction angs arbitrary: s t)
  case Nil
  then show ?case by simp
next
  case (Cons ang rest)
  from Cons.prems(1) obtain s1 where
    x: "each_angle D a poly area0 ws os ang s = Some s1"
    and y: "for_angles D a poly area0 ws os rest s1 = Some s'"
    by (auto split: option.splits)
  have "\<exists>t1. each_angle D b poly area0 ws os ang t = Some t1 \<and> core t1 = core s1"
    using x unfolding each_angle_def
    by (rule for_origins_sim[OF ab]) (use Cons.prems(2) in simp)
  then obtain t1 where
    x': "each_angle D b poly area0 ws os ang t = Some t1" and c1: "core t1 = core s1"
    by blast
  from Cons.IH[OF y c1] x' show ?case by simp
qed

lemma same_search_with_defaults:
  "same_search (with_defaults D (u\<lparr>u_events := x\<rparr>)) (with_defaults D (u\<lparr>u_events := y\<rparr>))"
  by (simp add: same_search_def with_defaults_def)

lemma largestRect_events_sim:
  assumes "largestRect D rnd poly0 (u\<lparr>u_events := x\<rparr>) = Some (res, msgs)"
  shows "\<exists>res'. largestRect D rnd poly0 (u\<lparr>u_events := y\<rparr>) = Some (res', msgs) \<and>
           candidate_of res' = candidate_of res"
proof (cases "length poly0 < 3 \<or> js_eq (js_abs (polygonArea D poly0)) (Fin 0)")
  case True
  with assms show ?thesis
    by (auto simp: largestRect_def Let_def with_defaults_def split: if_splits)
next
  case False
  let ?a = "with_defaults D (u\<lparr>u_events := x\<rparr>)"
  let ?b = "with_defaults D (u\<lparr>u_events := y\<rparr>)"
  have ab: "same_search ?a ?b" by (rule same_search_with_defaults)
  note f = same_search_fields[OF ab]
  have sp: "simplified D ?b poly0 = simplified D ?a poly0"
    by (simp add: simplified_def f)
  have po: "populate_origins D rnd ?b p = populate_origins D rnd ?a p" for p
    by (simp add: populate_origins_def f)
  have an: "angles D ?b = angles D ?a" by (simp add: angles_def f)
  from False assms obtain os st where
    o: "populate_origins D rnd ?a (simplified D ?a poly0) = Some os"
    and r: "for_angles D ?a (simplified D ?a poly0) (js_abs (polygonArea D poly0))
              (widthStep D (simplified D ?a poly0)) os (angles D ?a)
              (initial ?a (simplified D ?a poly0) os) = Some st"
    and e: "res = finish ?a st" "msgs = []"
    by (auto simp: largestRect_def Let_def split: option.splits)
  have "core (initial ?b (simplified D ?a poly0) os) = core (initial ?a (simplified D ?a poly0) os)"
    by (simp add: initial_def)
  from for_angles_sim[OF ab r this] obtain st' where
    r': "for_angles D ?b (simplified D ?a poly0) (js_abs (polygonArea D poly0))
              (widthStep D (simplified D ?a poly0)) os (angles D ?a)
              (initial ?b (simplified D ?a poly0) os) = Some st'"
    and c: "core st' = core st" by blast
  from c have "maxRect st' = maxRect st" by (simp add: core_def)
  with False o r' e show ?thesis
    by (simp add: largestRect_def Let_def sp po an)
qed

section \<open>The best area grows\<close>

lemma js_lt_trans: "js_lt a b \<Longrightarrow> js_lt b c \<Longrightarrow> js_lt a c"
  by (cases a; cases b; cases c) auto

lemma js_lt_irrefl [simp]: "\<not> js_lt a a"
  by (cases a) auto

lemma js_lt_NaN [simp]: "\<not> js_lt a NaN"
  by (cases a) auto

lemma js_eq_NaN [simp]: "\<not> js_eq a NaN"
  by (cases a) auto

text \<open>A resolution that is not negative: zero or more, or \<^verbatim>\<open>NaN\<close>.\<close>

definition not_negative :: "jsnum \<Rightarrow> bool" where
  "not_negative x = (\<not> js_lt x (Fin 0))"

text \<open>
  With a resolution of zero and finite bounds in order, the loop never ends: each probe
  keeps the bounds finite and in order.
\<close>

definition stuck :: "jsnum \<Rightarrow> jsnum \<times> jsnum \<times> state \<Rightarrow> bool" where
  "stuck ws lrs =
     (ws = Fin 0 \<and>
      (case fst lrs of
         Fin l \<Rightarrow> (case fst (snd lrs) of Fin r \<Rightarrow> l \<le> r | _ \<Rightarrow> False)
       | _ \<Rightarrow> False))"

lemma stuck_loop_cond: "stuck ws lrs \<Longrightarrow> loop_cond ws lrs"
  by (auto simp: stuck_def loop_cond_def js_ge_def js_sub_def split: jsnum.splits)

lemma stuck_probe:
  assumes "stuck ws lrs"
  shows "stuck ws (probe D opts poly area0 ang ar origin aR lrs)"
proof -
  from assms obtain l r where w: "ws = Fin 0" and l: "fst lrs = Fin l"
    and r: "fst (snd lrs) = Fin r" and lr: "l \<le> r"
    by (auto simp: stuck_def split: jsnum.splits)
  have m: "js_div (js_add (Fin l) (Fin r)) (Fin 2) = Fin ((l + r) / 2)" by simp
  from lr have "l \<le> (l + r) / 2" "(l + r) / 2 \<le> r" by simp_all
  with w l r show ?thesis
    unfolding stuck_def probe_def Let_def m by auto
qed

definition right_nonpos :: "jsnum \<Rightarrow> bool" where
  "right_nonpos r = (case r of Fin x \<Rightarrow> x \<le> 0 | PInf \<Rightarrow> False | _ \<Rightarrow> True)"

text \<open>
  The relation between the lower bound, the best area and the aspect ratio that the loop
  keeps: either the lower bound is \<^verbatim>\<open>NaN\<close> or infinite, and no probe follows, or it is
  at least the root of the best area times the ratio.
\<close>

definition bounded_below :: "jsnum \<Rightarrow> jsnum \<Rightarrow> jsnum \<Rightarrow> jsnum \<Rightarrow> bool" where
  "bounded_below left right aR M =
     (left = NaN \<or> left = PInf \<or>
      (\<exists>l m a. left = Fin l \<and> M = Fin m \<and> aR = Fin a \<and> 0 \<le> l \<and> m * a \<le> l * l \<and>
         (a \<le> 0 \<longrightarrow> right_nonpos right)))"

lemma js_sqrt_not_NInf [simp]: "js_sqrt x \<noteq> NInf"
  by (cases x) auto

lemma two_sqrt_cases:
  "js_mul (Fin 2) (js_sqrt x) = NaN \<or> js_mul (Fin 2) (js_sqrt x) = PInf \<or>
   (\<exists>v. 0 \<le> v \<and> js_mul (Fin 2) (js_sqrt x) = Fin v)"
  by (cases x) (auto simp: js_inf_def)

lemma right_nonpos_mul:
  assumes "a \<le> 0"
  shows "right_nonpos (js_mul (js_mul (Fin 2) (js_sqrt b)) (Fin a))"
proof -
  from two_sqrt_cases[of b] show ?thesis
  proof (elim disjE exE conjE)
    fix v :: real
    assume "0 \<le> v" and e: "js_mul (Fin 2) (js_sqrt b) = Fin v"
    with assms have "v * a \<le> 0" by (simp add: mult_nonneg_nonpos)
    with e show ?thesis by (simp add: right_nonpos_def)
  qed (use assms in \<open>auto simp: right_nonpos_def js_inf_def\<close>)
qed

lemma right_nonpos_min:
  assumes "right_nonpos y"
  shows "right_nonpos (js_min (js_mul (Fin 2) (js_sqrt a)) y)"
proof -
  from two_sqrt_cases[of a] assms show ?thesis
    by (cases y) (auto simp: right_nonpos_def js_min_def)
qed

lemma js_max_sqrt_not_NInf: "js_max mw (js_sqrt y) \<noteq> NInf"
  using js_sqrt_not_NInf[of y]
  by (cases mw; cases "js_sqrt y") (auto simp: js_max_def)

lemma entry_bounded_below:
  "bounded_below (js_max mw (js_sqrt (js_mul M aR)))
     (js_min (js_mul (Fin 2) (js_sqrt a)) (js_mul (js_mul (Fin 2) (js_sqrt b)) aR)) aR M"
proof -
  let ?l = "js_max mw (js_sqrt (js_mul M aR))"
  let ?r = "js_min (js_mul (Fin 2) (js_sqrt a)) (js_mul (js_mul (Fin 2) (js_sqrt b)) aR)"
  show ?thesis
  proof (cases ?l)
    case (Fin l)
    then obtain q where q: "js_sqrt (js_mul M aR) = Fin q" and lq: "q \<le> l"
      using js_sqrt_not_NInf[of "js_mul M aR"]
      by (cases mw; cases "js_sqrt (js_mul M aR)") (auto simp: js_max_def split: if_splits)
    then obtain p where p: "js_mul M aR = Fin p" and p0: "0 \<le> p" and qp: "q = sqrt p"
      by (cases "js_mul M aR") (auto split: if_splits)
    from p obtain m x where mx: "M = Fin m" "aR = Fin x" "p = m * x"
      by (cases M; cases aR) (auto simp: js_inf_def split: if_splits)
    have "0 \<le> sqrt p" using p0 by simp
    with lq qp have l0: "0 \<le> l" by linarith
    have "p = sqrt p * sqrt p" using p0 by simp
    also have "\<dots> \<le> l * l" using lq qp p0 l0 by (intro mult_mono) auto
    finally have pl: "m * x \<le> l * l" using mx by simp
    have rn: "right_nonpos ?r" if "x \<le> 0"
      using right_nonpos_min[OF right_nonpos_mul[OF that]] mx by simp
    from Fin mx l0 pl rn show ?thesis unfolding bounded_below_def by blast
  qed (use js_max_sqrt_not_NInf[of mw "js_mul M aR"] in \<open>auto simp: bounded_below_def\<close>)
qed


lemma growth:
  assumes ws: "not_negative ws"
    and cond: "js_ge (js_sub right left) ws"
    and free: "\<not> (ws = Fin 0 \<and> (case left of Fin l \<Rightarrow> (case right of Fin r \<Rightarrow> l \<le> r | _ \<Rightarrow> False)
                                   | _ \<Rightarrow> False))"
    and bb: "bounded_below left right aR M"
    and wd: "wd = js_div (js_add left right) (Fin 2)"
    and ht: "ht = js_div wd aR"
  shows "js_lt M (js_mul wd ht) \<and> bounded_below wd right aR (js_mul wd ht) \<and>
         bounded_below left wd aR M"
proof -
  from cond ws have ln: "left \<noteq> NaN" "left \<noteq> PInf"
    by (cases right; cases ws; auto simp: js_ge_def js_sub_def not_negative_def)+
  with bb obtain l m a where live: "left = Fin l" "M = Fin m" "aR = Fin a" "0 \<le> l"
    "m * a \<le> l * l" "a \<le> 0 \<longrightarrow> right_nonpos right"
    unfolding bounded_below_def by blast
  show ?thesis
  proof (cases right)
    case (Fin r)
    from cond ws live Fin obtain s where s: "ws = Fin s" "0 \<le> s" "s \<le> r - l"
      by (cases ws) (auto simp: js_ge_def js_sub_def not_negative_def)
    with free live Fin have lr: "l < r" by auto
    with live Fin have a: "0 < a" by (auto simp: right_nonpos_def)
    define w where "w = (l + r) / 2"
    have w: "wd = Fin w" "l < w" "0 < w" using lr live Fin wd by (simp_all add: w_def)
    have h: "ht = Fin (w / a)" using ht w a live by simp
    have "l * l < w * w" using w live by (intro mult_strict_mono') auto
    with live have "m * a < w * w" by linarith
    then have "m < w * w / a" using a by (simp add: pos_less_divide_eq)
    then have g: "js_lt M (js_mul wd ht)" using live w h by simp
    have b1: "bounded_below wd right aR (js_mul wd ht)"
      unfolding bounded_below_def using w h live a by auto
    have b2: "bounded_below left wd aR M"
      unfolding bounded_below_def using w live a by auto
    from g b1 b2 show ?thesis by blast
  next
    case PInf
    with live have a: "0 < a" by (auto simp: right_nonpos_def)
    from PInf live wd have w: "wd = PInf" by simp
    with ht live a have h: "ht = PInf" by simp
    from w h live a show ?thesis by (auto simp: bounded_below_def)
  next
    case NInf
    with cond ws live show ?thesis
      by (cases ws) (auto simp: js_ge_def js_sub_def not_negative_def)
  next
    case NaN
    with cond live show ?thesis by (auto simp: js_ge_def js_sub_def)
  qed
qed


text \<open>
  The probes of a trace that passed the containment test, the areas they assigned to
  \<^verbatim>\<open>maxArea\<close>, and the rectangle that such a probe recorded.
\<close>

fun inside_probe :: "event \<Rightarrow> bool" where
  "inside_probe (EvRectangle f x y w h a b) = b"
| "inside_probe _ = False"

fun probe_area :: "event \<Rightarrow> jsnum" where
  "probe_area (EvRectangle f x y w h a b) = js_mul w h"
| "probe_area _ = NaN"

definition assigned :: "event list \<Rightarrow> jsnum list" where
  "assigned evs = map probe_area (filter inside_probe evs)"

fun describes :: "event \<Rightarrow> candidate \<Rightarrow> bool" where
  "describes (EvRectangle f x y w h a b) c =
     (cx c = x \<and> cy c = y \<and> width c = w \<and> height c = h \<and> angle c = a \<and> area c = js_mul w h)"
| "describes _ c = False"

fun last_recorded :: "event list \<Rightarrow> candidate option \<Rightarrow> bool" where
  "last_recorded evs None = (filter inside_probe evs = [])"
| "last_recorded evs (Some c) =
     (filter inside_probe evs \<noteq> [] \<and> describes (last (filter inside_probe evs)) c)"

lemma last_recorded_cong:
  "filter inside_probe evs = filter inside_probe evs' \<Longrightarrow>
   last_recorded evs r = last_recorded evs' r"
  by (cases r) simp_all

definition trace_inv :: "state \<Rightarrow> bool" where
  "trace_inv st =
     (sorted_wrt js_lt (Fin 0 # assigned (events st)) \<and>
      maxArea st = last (Fin 0 # assigned (events st)) \<and>
      last_recorded (events st) (maxRect st))"

lemma sorted_wrt_snoc:
  assumes "sorted_wrt js_lt xs" and "xs \<noteq> []" and "js_lt (last xs) z"
  shows "sorted_wrt js_lt (xs @ [z])"
proof -
  have "\<forall>x \<in> set xs. js_lt x z"
    using assms
  proof (induction xs)
    case Nil
    then show ?case by simp
  next
    case (Cons x xs)
    show ?case
    proof (cases "xs = []")
      case True
      with Cons.prems show ?thesis by simp
    next
      case False
      with Cons.prems have a: "sorted_wrt js_lt xs" and b: "js_lt (last xs) z"
        and c: "\<forall>y \<in> set xs. js_lt x y" by auto
      from Cons.IH[OF a False b] have d: "\<forall>y \<in> set xs. js_lt y z" .
      from False obtain y where "y \<in> set xs" by (cases xs) auto
      with c d have "js_lt x z" by (blast intro: js_lt_trans)
      with d show ?thesis by simp
    qed
  qed
  with assms(1) show ?thesis by (simp add: sorted_wrt_append)
qed

lemma trace_inv_push:
  assumes "\<not> is_probe_event e" and "trace_inv st"
  shows "trace_inv (push_event on e st)"
proof -
  from assms(1) have "\<not> inside_probe e" by (cases e) auto
  then have "filter inside_probe (events st @ [e]) = filter inside_probe (events st)" by simp
  then have "filter inside_probe (events (push_event on e st)) = filter inside_probe (events st)"
    by (simp add: push_event_def)
  then have "assigned (events (push_event on e st)) = assigned (events st)"
    "last_recorded (events (push_event on e st)) r = last_recorded (events st) r" for r
    by (simp_all add: assigned_def last_recorded_cong[of "events (push_event on e st)" "events st"])
  with assms(2) show ?thesis
    by (simp add: trace_inv_def)
qed

lemma trace_inv_outside:
  assumes "trace_inv st"
  shows "trace_inv (push_event on (EvRectangle f x y w h a False) st)"
proof -
  have "filter inside_probe (events st @ [EvRectangle f x y w h a False]) =
        filter inside_probe (events st)" by simp
  then have "filter inside_probe (events (push_event on (EvRectangle f x y w h a False) st)) =
             filter inside_probe (events st)"
    by (simp add: push_event_def)
  then have "assigned (events (push_event on (EvRectangle f x y w h a False) st)) =
             assigned (events st)"
    "last_recorded (events (push_event on (EvRectangle f x y w h a False) st)) r =
     last_recorded (events st) r" for r
    by (simp_all add: assigned_def
        last_recorded_cong[of "events (push_event on (EvRectangle f x y w h a False) st)" "events st"])
  with assms show ?thesis
    by (simp add: trace_inv_def)
qed

lemma trace_inv_inside:
  assumes "trace_inv st" and "js_lt (maxArea st) (js_mul w h)"
  shows "trace_inv (push_event True (EvRectangle f x y w h a True)
           (st\<lparr>maxArea := js_mul w h,
               maxRect := Some \<lparr>area = js_mul w h, cx = x, cy = y, width = w, height = h,
                                angle = a, points = ps\<rparr>\<rparr>))"
proof -
  from assms have s: "sorted_wrt js_lt (Fin 0 # assigned (events st))"
    and m: "js_lt (last (Fin 0 # assigned (events st))) (js_mul w h)"
    by (simp_all add: trace_inv_def)
  have "sorted_wrt js_lt ((Fin 0 # assigned (events st)) @ [js_mul w h])"
    by (rule sorted_wrt_snoc[OF s _ m]) simp
  then show ?thesis
    by (simp add: trace_inv_def push_event_def assigned_def)
qed

definition growing ::
  "jsnum \<Rightarrow> jsnum \<Rightarrow> point \<Rightarrow> jsnum \<Rightarrow> jsnum \<times> jsnum \<times> state \<Rightarrow> bool" where
  "growing ws ang origin aR lrs =
     (stuck ws lrs \<or>
      (trace_inv (snd (snd lrs)) \<and>
       bounded_below (fst lrs) (fst (snd lrs)) aR (maxArea (snd (snd lrs)))))"

lemma growing_probe:
  assumes ws: "not_negative ws" and on: "opt_events opts"
    and g: "growing ws ang origin aR lrs" and c: "loop_cond ws lrs"
  shows "growing ws ang origin aR (probe D opts poly area0 ang ar origin aR lrs)"
proof (cases "stuck ws lrs")
  case True
  from stuck_probe[OF this] show ?thesis by (simp add: growing_def)
next
  case False
  obtain left right st where lrs: "lrs = (left, right, st)" by (cases lrs)
  from False g lrs have t: "trace_inv st" and b: "bounded_below left right aR (maxArea st)"
    by (simp_all add: growing_def)
  from c lrs have c': "js_ge (js_sub right left) ws" by (simp add: loop_cond_def)
  from False lrs have f: "\<not> (ws = Fin 0 \<and>
      (case left of Fin l \<Rightarrow> (case right of Fin r \<Rightarrow> l \<le> r | _ \<Rightarrow> False) | _ \<Rightarrow> False))"
    by (auto simp: stuck_def split: jsnum.splits)
  define wd where "wd = js_div (js_add left right) (Fin 2)"
  define ht where "ht = js_div wd aR"
  from growth[OF ws c' f b wd_def ht_def] have
    g1: "js_lt (maxArea st) (js_mul wd ht)"
    and g2: "bounded_below wd right aR (js_mul wd ht)"
    and g3: "bounded_below left wd aR (maxArea st)" by blast+
  show ?thesis
  proof (cases "polyInPoly D (rotatePoly D (corners origin wd ht) ar origin) poly")
    case True
    then have "probe D opts poly area0 ang ar origin aR lrs =
        (wd, right, push_event True
           (EvRectangle (js_div (js_mul wd ht) area0) (fst origin) (snd origin) wd ht ang True)
           (st\<lparr>maxArea := js_mul wd ht,
               maxRect := Some \<lparr>area = js_mul wd ht, cx = fst origin, cy = snd origin,
                                width = wd, height = ht, angle = ang,
                                points = push_first (rotatePoly D (corners origin wd ht) ar origin)\<rparr>\<rparr>))"
      by (simp add: probe_def Let_def lrs wd_def ht_def on)
    with trace_inv_inside[OF t g1] g2 show ?thesis
      by (simp add: growing_def)
  next
    case False
    then have "probe D opts poly area0 ang ar origin aR lrs =
        (left, wd, push_event True
           (EvRectangle (js_div (js_mul wd ht) area0) (fst origin) (snd origin) wd ht ang False) st)"
      by (simp add: probe_def Let_def lrs wd_def ht_def on)
    with trace_inv_outside[OF t] g3 show ?thesis
      by (simp add: growing_def)
  qed
qed

lemma search_grows:
  assumes ws: "not_negative ws" and on: "opt_events opts"
    and run: "for_angles D opts poly area0 ws os angs st = Some st'"
    and init: "trace_inv st"
  shows "trace_inv st'"
proof (rule search_invariant
    [where I = trace_inv and J = "growing ws", OF _ _ _ _ run init], goal_cases)
  case (1 on e st)
  then show ?case by (rule trace_inv_push)
next
  case (2 ang orig origin aRatio a b st)
  then show ?case by (simp add: growing_def entry_bounded_below)
next
  case (3 ang orig origin aRatio lrs)
  from growing_probe[OF ws on 3(4,5)] show ?case .
next
  case (4 ang origin aRatio lrs)
  then show ?case using stuck_loop_cond[of ws lrs] by (auto simp: growing_def)
qed

text \<open>An \<^verbatim>\<open>extent\<close> that never returns a maximum below the minimum.\<close>

definition extent_ordered :: "deps \<Rightarrow> bool" where
  "extent_ordered D = (\<forall>xs. \<not> js_lt (snd (extent D xs)) (fst (extent D xs)))"

lemma not_negative_sub: "\<not> js_lt hi lo \<Longrightarrow> not_negative (js_sub hi lo)"
  by (cases hi; cases lo) (auto simp: not_negative_def js_sub_def)

lemma not_negative_min: "not_negative a \<Longrightarrow> not_negative b \<Longrightarrow> not_negative (js_min a b)"
  by (auto simp: not_negative_def js_min_def)

lemma not_negative_div: "not_negative a \<Longrightarrow> not_negative (js_div a (Fin 50))"
  by (cases a) (auto simp: not_negative_def)

lemma not_negative_widthStep: "extent_ordered D \<Longrightarrow> not_negative (widthStep D poly)"
  unfolding widthStep_def boxWidth_def boxHeight_def maxx_def minx_def maxy_def miny_def
  by (intro not_negative_div not_negative_min not_negative_sub) (simp_all add: extent_ordered_def)

lemma trace_inv_initial: "trace_inv (initial opts poly os)"
  by (simp add: trace_inv_def initial_def push_event_def assigned_def)

lemma area_of_last_recorded:
  assumes "last_recorded evs r" and "m = last (Fin 0 # assigned evs)"
  shows "map_option area r = (if assigned evs = [] then None else Some (last (assigned evs)))"
proof (cases r)
  case None
  with assms show ?thesis by (simp add: assigned_def)
next
  case (Some c)
  with assms have ne: "filter inside_probe evs \<noteq> []"
    and d: "describes (last (filter inside_probe evs)) c" by simp_all
  from d have "area c = probe_area (last (filter inside_probe evs))"
    by (cases "last (filter inside_probe evs)") simp_all
  with ne Some show ?thesis by (simp add: assigned_def last_map)
qed

text \<open>The width of every probe is at least \<^verbatim>\<open>options.minWidth\<close>.\<close>

lemma midpoint_at_least:
  assumes "not_negative ws" and "js_ge (js_sub right left) ws"
    and "left \<noteq> NInf" and "js_ge left mw"
  shows "js_ge (js_div (js_add left right) (Fin 2)) mw \<and>
         js_div (js_add left right) (Fin 2) \<noteq> NInf"
  using assms
  by (cases left; cases right; cases ws; cases mw)
    (auto simp: not_negative_def js_ge_def js_sub_def)

lemma entry_at_least:
  "js_max mw (js_sqrt x) = NaN \<or>
   (js_max mw (js_sqrt x) \<noteq> NInf \<and> js_ge (js_max mw (js_sqrt x)) mw)"
  using js_sqrt_not_NInf[of x]
  by (cases mw; cases "js_sqrt x") (auto simp: js_max_def js_ge_def)

lemma search_width:
  assumes ws: "not_negative ws"
    and run: "for_angles D opts poly area0 ws os angs st = Some st'"
    and init: "maxRect st = None"
  shows "\<forall>c. maxRect st' = Some c \<longrightarrow> js_ge (width c) (minWidth opts)"
proof (rule search_invariant
    [where I = "\<lambda>s. \<forall>c. maxRect s = Some c \<longrightarrow> js_ge (width c) (minWidth opts)"
       and J = "\<lambda>ang origin aRatio lrs.
                  (\<forall>c. maxRect (snd (snd lrs)) = Some c \<longrightarrow> js_ge (width c) (minWidth opts)) \<and>
                  (fst lrs = NaN \<or> (fst lrs \<noteq> NInf \<and> js_ge (fst lrs) (minWidth opts)))",
     OF _ _ _ _ run], goal_cases)
  case (2 ang orig origin aRatio a b st)
  with entry_at_least[of "minWidth opts" "js_mul (maxArea st) aRatio"] show ?case by simp
next
  case (3 ang orig origin aRatio lrs)
  obtain left right s where lrs: "lrs = (left, right, s)" by (cases lrs)
  from 3(5) lrs have c: "js_ge (js_sub right left) ws" by (simp add: loop_cond_def)
  then have "left \<noteq> NaN" by (cases right) (auto simp: js_ge_def js_sub_def)
  with 3(4) lrs have l: "left \<noteq> NInf" "js_ge left (minWidth opts)" by simp_all
  from midpoint_at_least[OF ws c l] 3(4) lrs l show ?case
    by (auto simp: probe_def Let_def)
qed (use init in simp_all)

lemma width_at_least_minWidth:
  assumes "largestRect D rnd poly0 u = Some (res, msgs)" and "candidate_of res = Some c"
    and "extent_ordered D"
  shows "js_ge (width c) (minWidth (with_defaults D u))"
proof -
  from largestRect_candidate[OF assms(1,2)] obtain os st where
    r: "for_angles D (with_defaults D u) (simplified D (with_defaults D u) poly0)
             (js_abs (polygonArea D poly0)) (widthStep D (simplified D (with_defaults D u) poly0)) os
             (angles D (with_defaults D u))
             (initial (with_defaults D u) (simplified D (with_defaults D u) poly0) os) = Some st"
    and c: "maxRect st = Some c" by blast
  from search_width[OF not_negative_widthStep[OF assms(3)] r] c show ?thesis by simp
qed

text \<open>
  When the product of the two bounds does not exceed the best area and the resolution is
  positive, no width is left to probe, whatever the aspect ratio.
\<close>

lemma no_gap_when_bounded:
  assumes pos: "js_lt (Fin 0) ws"
    and bound: "\<not> js_lt M (js_mul (js_mul (Fin 2) (js_sqrt a)) (js_mul (Fin 2) (js_sqrt b)))"
  shows "\<not> js_ge (js_sub (js_min (js_mul (Fin 2) (js_sqrt a))
                              (js_mul (js_mul (Fin 2) (js_sqrt b)) aR))
                      (js_max mw (js_sqrt (js_mul M aR)))) ws"
proof
  let ?W = "js_mul (Fin 2) (js_sqrt a)"
  let ?H = "js_mul (Fin 2) (js_sqrt b)"
  let ?l = "js_max mw (js_sqrt (js_mul M aR))"
  let ?r = "js_min ?W (js_mul ?H aR)"
  assume c: "js_ge (js_sub ?r ?l) ws"
  from pos have nn: "not_negative ws" by (cases ws) (auto simp: not_negative_def)
  from c nn have ln: "?l \<noteq> NaN" "?l \<noteq> PInf"
    by (cases ?r; cases ws; auto simp: js_ge_def js_sub_def not_negative_def)+
  with entry_bounded_below[of mw M aR a b] obtain l m x where
    live: "?l = Fin l" "M = Fin m" "aR = Fin x" "0 \<le> l" "m * x \<le> l * l"
      "x \<le> 0 \<longrightarrow> right_nonpos ?r"
    unfolding bounded_below_def by blast
  from c live pos have gap: "?r = PInf \<or> (\<exists>r. ?r = Fin r \<and> l < r)"
    by (cases ?r; cases ws) (auto simp: js_ge_def js_sub_def)
  with live have x: "0 < x" by (auto simp: right_nonpos_def)
  from gap have rn: "?r \<noteq> NaN" by auto
  then have wn: "?W \<noteq> NaN" and hn: "js_mul ?H aR \<noteq> NaN" by (auto simp: js_min_def)
  from hn live have hn': "?H \<noteq> NaN" by auto
  from two_sqrt_cases[of a] wn consider "?W = PInf" | w where "0 \<le> w" "?W = Fin w" by blast
  then show False
  proof cases
    case 1
    from two_sqrt_cases[of b] hn' consider "?H = PInf" | h where "0 \<le> h" "?H = Fin h" by blast
    then show False
    proof cases
      case 1
      with \<open>?W = PInf\<close> bound live show False by simp
    next
      case 2
      from 2 \<open>?W = PInf\<close> live have "?r = Fin (h * x)" by (simp add: js_min_def)
      with gap live have "0 < h * x" by auto
      with x have "0 < h" by (simp add: zero_less_mult_iff)
      with 2 \<open>?W = PInf\<close> bound live show False by (simp add: js_inf_def)
    qed
  next
    case 2
    note W = this
    from two_sqrt_cases[of b] hn' consider "?H = PInf" | h where "0 \<le> h" "?H = Fin h" by blast
    then show False
    proof cases
      case 1
      with W live x gap have "0 < w" by (auto simp: js_min_def js_inf_def split: if_splits)
      with 1 W bound live show False by (simp add: js_inf_def)
    next
      case 2
      with W live x gap obtain r where r: "l < r" "r \<le> w" "r \<le> h * x"
        by (auto simp: js_min_def split: if_splits)
      from 2 W bound live have wh: "w * h \<le> m" by simp
      have "r * r \<le> w * (h * x)" using r live W(1) by (intro mult_mono) auto
      also have "\<dots> = (w * h) * x" by simp
      also have "\<dots> \<le> m * x" using wh x by (intro mult_right_mono) auto
      also have "\<dots> \<le> l * l" by (rule live(5))
      finally have "r * r \<le> l * l" .
      moreover have "l * l < r * r" using r live by (intro mult_strict_mono') auto
      ultimately show False by simp
    qed
  qed
qed

lemma no_probe_when_bounded:
  assumes pos: "js_lt (Fin 0) ws"
    and bound: "\<not> js_lt (maxArea st) (js_mul (js_mul (Fin 2) (js_sqrt a)) (js_mul (Fin 2) (js_sqrt b)))"
  shows "for_aRatios D opts poly area0 ws ang ar origin
           (js_mul (Fin 2) (js_sqrt a)) (js_mul (Fin 2) (js_sqrt b)) rs st = Some st"
proof (induction rs)
  case Nil
  show ?case by simp
next
  case (Cons aRatio rest)
  from no_gap_when_bounded[OF pos bound, of aRatio "minWidth opts"] Cons.IH show ?case
    by (simp add: Let_def binary_search_stop push_event_def)
qed


section \<open>Sampling the candidate centres\<close>

text \<open>The point that the pass of the sampling loop at index \<open>k\<close> draws.\<close>

definition drawn :: "(nat \<Rightarrow> jsnum) \<Rightarrow> jsnum \<Rightarrow> jsnum \<Rightarrow> jsnum \<Rightarrow> jsnum \<Rightarrow> nat \<Rightarrow> point" where
  "drawn rnd bw bh mx my k =
     (js_add (js_mul (rnd k) bw) mx, js_add (js_mul (rnd (k + 1)) bh) my)"

lemma sample_origins_step:
  "sample_origins D rnd poly bw bh mx my n k os =
     (if js_lt (Fin (real (length os))) n
      then sample_origins D rnd poly bw bh mx my n (k + 2)
             (if pointInPoly D (drawn rnd bw bh mx my k) poly
              then os @ [drawn rnd bw bh mx my k] else os)
      else Some os)"
  by (subst sample_origins.simps) (simp add: Let_def drawn_def)

text \<open>The rule of the sampling loop: an invariant of the pass, on the index and the list.\<close>

lemma sample_origins_rule:
  assumes step: "\<And>k os. J k os \<Longrightarrow> js_lt (Fin (real (length os))) n \<Longrightarrow>
        J (k + 2) (if pointInPoly D (drawn rnd bw bh mx my k) poly
                   then os @ [drawn rnd bw bh mx my k] else os)"
    and exit: "\<And>k os. J k os \<Longrightarrow> \<not> js_lt (Fin (real (length os))) n \<Longrightarrow> Q os"
    and run: "sample_origins D rnd poly bw bh mx my n k os = Some os'"
    and init: "J k os"
  shows "Q os'"
proof -
  have "(D, rnd, poly, bw, bh, mx, my, n) = (D, rnd, poly, bw, bh, mx, my, n) \<longrightarrow> J k os \<longrightarrow> Q os'"
  proof (rule sample_origins.raw_induct
      [OF _ run, where P = "\<lambda>D' r' p' bw' bh' mx' my' n' k os y.
          (D', r', p', bw', bh', mx', my', n') = (D, rnd, poly, bw, bh, mx, my, n)
            \<longrightarrow> J k os \<longrightarrow> Q y"], goal_cases)
    case (1 f D' r' p' bw' bh' mx' my' n' k os y)
    show ?case
    proof (intro impI)
      assume eq: "(D', r', p', bw', bh', mx', my', n') = (D, rnd, poly, bw, bh, mx, my, n)"
        and j: "J k os"
      show "Q y"
      proof (cases "js_lt (Fin (real (length os))) n")
        case True
        with 1(2) eq have "f D rnd poly bw bh mx my n (k + 2)
            (if pointInPoly D (drawn rnd bw bh mx my k) poly
             then os @ [drawn rnd bw bh mx my k] else os) = Some y"
          by (auto simp: Let_def drawn_def)
        from 1(1)[OF this] step[OF j True] show ?thesis by simp
      next
        case False
        with 1(2) eq have "y = os" by simp
        with exit[OF j False] show ?thesis by simp
      qed
    qed
  qed
  with init show ?thesis by simp
qed

lemma sample_origins_result:
  assumes "sample_origins D rnd poly bw bh mx my n k os = Some os'"
  shows "\<not> js_lt (Fin (real (length os'))) n \<and>
         (\<exists>added. os' = os @ added \<and> (\<forall>p \<in> set added. pointInPoly D p poly))"
  by (rule sample_origins_rule
      [where J = "\<lambda>k os1. \<exists>added. os1 = os @ added \<and> (\<forall>p \<in> set added. pointInPoly D p poly)"
         and Q = "\<lambda>os1. \<not> js_lt (Fin (real (length os1))) n \<and>
                    (\<exists>added. os1 = os @ added \<and> (\<forall>p \<in> set added. pointInPoly D p poly))",
       OF _ _ assms])
    auto

lemma sample_origins_never:
  assumes out: "\<forall>j. \<not> pointInPoly D (drawn rnd bw bh mx my j) poly"
    and few: "js_lt (Fin (real (length os))) n"
  shows "sample_origins D rnd poly bw bh mx my n k os = None"
proof (cases "sample_origins D rnd poly bw bh mx my n k os")
  case (Some os')
  have False
    by (rule sample_origins_rule
        [where J = "\<lambda>k os1. os1 = os" and Q = "\<lambda>os1. False", OF _ _ Some])
      (use out few in auto)
  then show ?thesis ..
qed simp

lemma sample_origins_always:
  assumes inside: "\<forall>j. pointInPoly D (drawn rnd bw bh mx my j) poly"
    and fin: "n \<noteq> PInf"
  shows "\<exists>os'. sample_origins D rnd poly bw bh mx my n k os = Some os'"
proof (cases n)
  case (Fin t)
  show ?thesis
  proof (induction "nat \<lceil>t\<rceil> - length os" arbitrary: k os)
    case 0
    then have "\<not> real (length os) < t" by linarith
    with Fin show ?case by (subst sample_origins_step) simp
  next
    case (Suc m)
    show ?case
    proof (cases "real (length os) < t")
      case True
      from Suc(2) have "m = nat \<lceil>t\<rceil> - length (os @ [drawn rnd bw bh mx my k])" by simp
      from Suc(1)[OF this, of "k + 2"] True Fin inside show ?thesis
        by (subst sample_origins_step) simp
    next
      case False
      with Fin show ?thesis by (subst sample_origins_step) simp
    qed
  qed
next
  case PInf
  with fin show ?thesis by simp
next
  case NInf
  then show ?thesis by (subst sample_origins_step) simp
next
  case NaN
  then show ?thesis by (subst sample_origins_step) simp
qed

section \<open>A run on the unit square\<close>

definition square :: polygon where
  "square = [(Fin 0, Fin 0), (Fin 1, Fin 0), (Fin 1, Fin 1), (Fin 0, Fin 1)]"

definition centre :: point where
  "centre = (Fin (1 / 2), Fin (1 / 2))"

definition zero_source :: "nat \<Rightarrow> jsnum" where
  "zero_source k = Fin 0"

definition no_options :: user_options where
  "no_options = \<lparr> u_angle = Absent, u_aspectRatio = Absent, u_maxAspectRatio = None,
     u_minAspectRatio = None, u_minHeight = None, u_minWidth = None, u_nTries = None,
     u_tolerance = None, u_verbose = None, u_origin = NoOrigin, u_events = False \<rparr>"

text \<open>
  \<^verbatim>\<open>{angle: 0, aspectRatio: 2, origin: [0.5, 0.5], tolerance: 0, minWidth: 0.95, minHeight: 0.9}\<close>
\<close>

definition wide :: user_options where
  "wide = no_options \<lparr> u_angle := Num (Fin 0), u_aspectRatio := Num (Fin 2),
     u_origin := OnePoint centre, u_tolerance := Some (Fin 0),
     u_minWidth := Some (Fin (19 / 20)), u_minHeight := Some (Fin (9 / 10)) \<rparr>"

text \<open>The rectangles of the first and of the second probe.\<close>

definition first :: candidate where
  "first = \<lparr> area = Fin (1521 / 3200), cx = Fin (1 / 2), cy = Fin (1 / 2),
     width = Fin (39 / 40), height = Fin (39 / 80), angle = Fin 0,
     points = [Some (Fin (1 / 80), Fin (41 / 160)), Some (Fin (79 / 80), Fin (41 / 160)),
               Some (Fin (79 / 80), Fin (119 / 160)), Some (Fin (1 / 80), Fin (119 / 160)),
               Some (Fin (1 / 80), Fin (41 / 160))] \<rparr>"

definition found :: candidate where
  "found = \<lparr> area = Fin (6241 / 12800), cx = Fin (1 / 2), cy = Fin (1 / 2),
     width = Fin (79 / 80), height = Fin (79 / 160), angle = Fin 0,
     points = [Some (Fin (1 / 160), Fin (81 / 320)), Some (Fin (159 / 160), Fin (81 / 320)),
               Some (Fin (159 / 160), Fin (239 / 320)), Some (Fin (1 / 160), Fin (239 / 320)),
               Some (Fin (1 / 160), Fin (81 / 320))] \<rparr>"

lemma closing_square:
  "closing square = [((Fin 0, Fin 1), (Fin 0, Fin 0)), ((Fin 0, Fin 0), (Fin 1, Fin 0)),
                     ((Fin 1, Fin 0), (Fin 1, Fin 1)), ((Fin 1, Fin 1), (Fin 0, Fin 1))]"
  by (simp add: closing_def square_def)

lemma ray_width:
  "rayIntersectsPoly reference square centre (Fin 0) =
     (Some (Fin 0, Fin (1 / 2)), Some (Fin 1, Fin (1 / 2)))"
  by (simp add: reference_def rayIntersectsPoly_spec_def closing_square hit_def centre_def Let_def
      js_sub_def js_ge_def js_gt_def nearer_def js_inf_def)

lemma ray_height:
  "rayIntersectsPoly reference square centre (js_add (Fin 0) (js_div PI (Fin 2))) =
     (Some (Fin (1 / 2), Fin 0), Some (Fin (1 / 2), Fin 1))"
  by (simp add: reference_def rayIntersectsPoly_spec_def closing_square hit_def centre_def Let_def
      js_sub_def js_ge_def js_gt_def nearer_def PI_def js_inf_def)

lemma sqrt_quarter: "sqrt (1 / 4) = 1 / 2"
  by (rule real_sqrt_unique) (simp_all add: power2_eq_square)

lemma sqrt_found: "sqrt (6241 / 6400) = 79 / 80"
  by (rule real_sqrt_unique) (simp_all add: power2_eq_square)

lemma reach_width:
  "js_mul (Fin 2) (js_sqrt (js_min (squaredDistance reference centre (Fin 0, Fin (1 / 2)))
                              (squaredDistance reference centre (Fin 1, Fin (1 / 2))))) = Fin 1"
  by (simp add: reference_def squaredDistance_spec_def centre_def Let_def js_sub_def js_min_def
      sqrt_quarter)

lemma reach_height:
  "js_mul (Fin 2) (js_sqrt (js_min (squaredDistance reference centre (Fin (1 / 2), Fin 0))
                              (squaredDistance reference centre (Fin (1 / 2), Fin 1)))) = Fin 1"
  by (simp add: reference_def squaredDistance_spec_def centre_def Let_def js_sub_def js_min_def
      sqrt_quarter)

lemma modifOrigins_centre: "modifOrigins reference square (Fin 0) centre = [centre, centre]"
  unfolding modifOrigins_def ray_width ray_height
  by (simp add: midpoint_def centre_def)

lemma rotate_none:
  "rotatePoly reference (corners centre (Fin w) (Fin h)) (Fin 0) centre =
     [(Fin (1 / 2 - w / 2), Fin (1 / 2 - h / 2)), (Fin (1 / 2 + w / 2), Fin (1 / 2 - h / 2)),
      (Fin (1 / 2 + w / 2), Fin (1 / 2 + h / 2)), (Fin (1 / 2 - w / 2), Fin (1 / 2 + h / 2))]"
  by (simp add: reference_def rotatePoly_spec_def rotatePoint_spec_def corners_def centre_def
      Let_def js_sub_def)

lemma inside_first:
  "polyInPoly reference
     (rotatePoly reference (corners centre (Fin (39 / 40)) (Fin (39 / 80))) (Fin 0) centre) square"
  unfolding rotate_none
  by (simp add: reference_def polyInPoly_spec_def closing_def square_def pointInPoly_spec_def
      crosses_ray_def js_gt_def js_sub_def segments_cross_def orient_def js_inf_def)

lemma inside_found:
  "polyInPoly reference
     (rotatePoly reference (corners centre (Fin (79 / 80)) (Fin (79 / 160))) (Fin 0) centre) square"
  unfolding rotate_none
  by (simp add: reference_def polyInPoly_spec_def closing_def square_def pointInPoly_spec_def
      crosses_ray_def js_gt_def js_sub_def segments_cross_def orient_def js_inf_def)

definition seen_first :: event where
  "seen_first = EvRectangle (Fin (1521 / 3200)) (Fin (1 / 2)) (Fin (1 / 2)) (Fin (39 / 40))
                  (Fin (39 / 80)) (Fin 0) True"

definition seen_found :: event where
  "seen_found = EvRectangle (Fin (6241 / 12800)) (Fin (1 / 2)) (Fin (1 / 2)) (Fin (79 / 80))
                  (Fin (79 / 160)) (Fin 0) True"

lemma fst_centre: "fst centre = Fin (1 / 2)" and snd_centre: "snd centre = Fin (1 / 2)"
  by (simp_all add: centre_def)

lemma probe_first:
  "probe reference opts square (Fin 1) (Fin 0) (Fin 0) centre (Fin 2) (Fin (19 / 20), Fin 1, st) =
     (Fin (39 / 40), Fin 1,
      push_event (opt_events opts) seen_first
        (st\<lparr>maxArea := Fin (1521 / 3200), maxRect := Some first\<rparr>))"
proof -
  have w: "js_div (js_add (Fin (19 / 20)) (Fin 1)) (Fin 2) = Fin (39 / 40)" by simp
  have h: "js_div (Fin (39 / 40)) (Fin 2) = Fin (39 / 80)" by simp
  have p: "push_first (rotatePoly reference (corners centre (Fin (39 / 40)) (Fin (39 / 80)))
             (Fin 0) centre) = points first"
    unfolding rotate_none by (simp add: push_first_def first_def)
  show ?thesis
    unfolding probe_def Let_def fst_conv snd_conv w h
    by (simp add: inside_first p seen_first_def first_def fst_centre snd_centre)
qed

lemma probe_found:
  "probe reference opts square (Fin 1) (Fin 0) (Fin 0) centre (Fin 2) (Fin (39 / 40), Fin 1, st) =
     (Fin (79 / 80), Fin 1,
      push_event (opt_events opts) seen_found
        (st\<lparr>maxArea := Fin (6241 / 12800), maxRect := Some found\<rparr>))"
proof -
  have w: "js_div (js_add (Fin (39 / 40)) (Fin 1)) (Fin 2) = Fin (79 / 80)" by simp
  have h: "js_div (Fin (79 / 80)) (Fin 2) = Fin (79 / 160)" by simp
  have p: "push_first (rotatePoly reference (corners centre (Fin (79 / 80)) (Fin (79 / 160)))
             (Fin 0) centre) = points found"
    unfolding rotate_none by (simp add: push_first_def found_def)
  show ?thesis
    unfolding probe_def Let_def fst_conv snd_conv w h
    by (simp add: inside_found p seen_found_def found_def fst_centre snd_centre)
qed

lemma search_wide:
  "binary_search reference opts square (Fin 1) (Fin (1 / 50)) (Fin 0) (Fin 0) centre (Fin 2)
     (Fin (19 / 20), Fin 1, st) =
   Some (push_event (opt_events opts) seen_found
           (push_event (opt_events opts) seen_first
              (st\<lparr>maxArea := Fin (1521 / 3200), maxRect := Some first\<rparr>)
            \<lparr>maxArea := Fin (6241 / 12800), maxRect := Some found\<rparr>))"
proof -
  have a: "js_ge (js_sub (Fin 1) (Fin (19 / 20))) (Fin (1 / 50))"
    by (simp add: js_ge_def js_sub_def)
  have b: "js_ge (js_sub (Fin 1) (Fin (39 / 40))) (Fin (1 / 50))"
    by (simp add: js_ge_def js_sub_def)
  have c: "\<not> js_ge (js_sub (Fin 1) (Fin (79 / 80))) (Fin (1 / 50))"
    by (simp add: js_ge_def js_sub_def)
  show ?thesis
    by (simp only: binary_search_continue[OF a] probe_first binary_search_continue[OF b]
        probe_found binary_search_stop[OF c])
qed

lemma ratios_first:
  assumes "minWidth opts = Fin (19 / 20)" and "maxArea st = Fin 0"
  shows "for_aRatios reference opts square (Fin 1) (Fin (1 / 50)) (Fin 0) (Fin 0) centre
           (Fin 1) (Fin 1) [Fin 2] st =
         Some (push_event (opt_events opts) seen_found
                 (push_event (opt_events opts) seen_first
                    (push_event (opt_events opts) (EvARatio (Fin 2)) st
                       \<lparr>maxArea := Fin (1521 / 3200), maxRect := Some first\<rparr>)
                  \<lparr>maxArea := Fin (6241 / 12800), maxRect := Some found\<rparr>))"
  by (simp add: assms Let_def js_max_def js_min_def js_ge_def js_sub_def search_wide)

lemma ratios_second:
  assumes "minWidth opts = Fin (19 / 20)" and "maxArea st = Fin (6241 / 12800)"
  shows "for_aRatios reference opts square (Fin 1) (Fin (1 / 50)) (Fin 0) (Fin 0) centre
           (Fin 1) (Fin 1) [Fin 2] st = Some st"
  by (simp add: assms Let_def js_max_def js_min_def js_ge_def js_sub_def sqrt_found
      binary_search_stop push_event_def)

definition at_centre :: event where
  "at_centre = EvOrigin (Fin (1 / 2)) (Fin (1 / 2))"

lemma try_centre:
  assumes "aspectRatios reference opts = [Fin 2]"
  shows "try_origin reference opts square (Fin 1) (Fin (1 / 50)) (Fin 0) (Fin 0) centre st =
     (if js_lt (Fin 1) (maxArea st)
      then Some (push_event (opt_events opts) at_centre st)
      else for_aRatios reference opts square (Fin 1) (Fin (1 / 50)) (Fin 0) (Fin 0) centre
             (Fin 1) (Fin 1) [Fin 2] (push_event (opt_events opts) at_centre st))"
  using try_origin_both_hit[OF ray_width ray_height reach_width reach_height assms]
  by (simp add: at_centre_def fst_centre snd_centre)

definition recentred :: event where
  "recentred = EvModifOrigin 0 (Some (Fin 0, Fin (1 / 2))) (Some (Fin 1, Fin (1 / 2)))
                 (Some (Fin (1 / 2), Fin 0)) (Some (Fin (1 / 2), Fin 1)) [centre, centre]"

lemma angle_zero:
  assumes "minWidth opts = Fin (19 / 20)" and "aspectRatios reference opts = [Fin 2]"
    and "maxArea st = Fin 0"
  shows "each_angle reference opts square (Fin 1) (Fin (1 / 50)) [centre] (Fin 0) st =
     Some (push_event (opt_events opts) at_centre
            (push_event (opt_events opts) seen_found
              (push_event (opt_events opts) seen_first
                (push_event (opt_events opts) (EvARatio (Fin 2))
                  (push_event (opt_events opts) at_centre
                    (push_event (opt_events opts) recentred
                      (push_event (opt_events opts) (EvAngle (Fin 0)) st)))
                 \<lparr>maxArea := Fin (1521 / 3200), maxRect := Some first\<rparr>)
               \<lparr>maxArea := Fin (6241 / 12800), maxRect := Some found\<rparr>)))"
proof -
  have r: "to_angleRad (Fin 0) = Fin 0" by (simp add: to_angleRad_def PI_def)
  show ?thesis
    unfolding each_angle_def r
    by (simp add: each_origin_def Let_def modifOrigins_centre ray_width ray_height
        recentred_def [symmetric] try_centre[OF assms(2)] assms(1,3)
        ratios_first[OF assms(1)] ratios_second[OF assms(1)] del: for_aRatios.simps)
qed

lemma area_square: "js_abs (polygonArea reference square) = Fin 1"
  by (simp add: reference_def polygonArea_spec_def closing_square js_sub_def)

lemma extent_square:
  "extent reference (map fst square) = (Fin 0, Fin 1)"
  "extent reference (map snd square) = (Fin 0, Fin 1)"
  by (simp_all add: reference_def extent_spec_def square_def)

lemma box_square:
  "boxWidth reference square = Fin 1" "boxHeight reference square = Fin 1"
  "widthStep reference square = Fin (1 / 50)"
  by (simp_all add: widthStep_def boxWidth_def boxHeight_def minx_def maxx_def miny_def maxy_def
      extent_square js_sub_def js_min_def)

lemma length_square: "length square = 4"
  by (simp add: square_def)

text \<open>The events of the run, in order.\<close>

definition trace :: "event list" where
  "trace = [EvSimplify square, EvOrigins [centre], EvAngle (Fin 0), recentred, at_centre,
            EvARatio (Fin 2), seen_first, seen_found, at_centre]"

lemma run_wide:
  "largestRect reference rnd square (wide\<lparr>u_events := e\<rparr>) =
     Some (if e then Traced (Some found) trace else Rect found, [])"
proof -
  let ?o = "with_defaults reference (wide\<lparr>u_events := e\<rparr>)"
  let ?end = "push_event e at_centre
            (push_event e seen_found
              (push_event e seen_first
                (push_event e (EvARatio (Fin 2))
                  (push_event e at_centre
                    (push_event e recentred
                      (push_event e (EvAngle (Fin 0)) (initial ?o square [centre]))))
                 \<lparr>maxArea := Fin (1521 / 3200), maxRect := Some first\<rparr>)
               \<lparr>maxArea := Fin (6241 / 12800), maxRect := Some found\<rparr>))"
  have o: "minWidth ?o = Fin (19 / 20)" "tolerance ?o = Fin 0" "opt_events ?o = e"
    "opt_origin ?o = OnePoint centre" "verbose ?o = False"
    by (simp_all add: with_defaults_def wide_def no_options_def)
  have r: "aspectRatios reference ?o = [Fin 2]" "angles reference ?o = [Fin 0]"
    by (simp_all add: aspectRatios_def angles_def with_defaults_def wide_def no_options_def)
  have s: "simplified reference ?o square = square"
    by (simp add: simplified_def box_square o js_min_def js_gt_def)
  have p: "populate_origins reference rnd ?o square = Some [centre]"
    by (simp add: populate_origins_def o)
  have a: "for_angles reference ?o square (Fin 1) (Fin (1 / 50)) [centre] [Fin 0]
             (initial ?o square [centre]) = Some ?end"
    using angle_zero[OF o(1) r(1), of "initial ?o square [centre]"]
    by (simp add: o)
  have f: "finish ?o ?end = (if e then Traced (Some found) trace else Rect found)"
    by (simp add: finish_def o initial_def push_event_def trace_def)
  show ?thesis
    unfolding largestRect_def Let_def
    by (simp add: length_square area_square s p r box_square a f
        del: for_angles.simps split del: if_split)
qed

text \<open>Properties of the described functions that the theorems ask of the imports.\<close>

lemma reference_rotate_length: "length (rotatePoly reference ps a p) = length ps"
  by (simp add: reference_def rotatePoly_spec_def)

lemma reference_contract: "containment_contract reference segments_cross"
  by (simp add: containment_contract_def reference_def polyInPoly_spec_def)

lemma extent_step_ordered:
  assumes "x \<noteq> NaN" and "lo \<noteq> NaN" and "hi \<noteq> NaN" and "\<not> js_lt hi lo"
  shows "\<not> js_lt (if js_lt hi x then x else hi) (if js_lt x lo then x else lo) \<and>
         (if js_lt x lo then x else lo) \<noteq> NaN \<and> (if js_lt hi x then x else hi) \<noteq> NaN"
  using assms by (cases x; cases lo; cases hi) auto

lemma extent_fold_ordered:
  assumes "\<forall>x \<in> set xs. x \<noteq> NaN" and "lo \<noteq> NaN" and "hi \<noteq> NaN" and "\<not> js_lt hi lo"
  shows "\<not> js_lt (snd (fold (\<lambda>x (lo, hi). (if js_lt x lo then x else lo,
                                             if js_lt hi x then x else hi)) xs (lo, hi)))
                  (fst (fold (\<lambda>x (lo, hi). (if js_lt x lo then x else lo,
                                             if js_lt hi x then x else hi)) xs (lo, hi)))"
  using assms
proof (induction xs arbitrary: lo hi)
  case Nil
  then show ?case by simp
next
  case (Cons x xs)
  from Cons.prems have x: "x \<noteq> NaN" and r: "\<forall>y \<in> set xs. y \<noteq> NaN" by simp_all
  from extent_step_ordered[OF x Cons.prems(2,3,4)] Cons.IH[OF r] show ?case by simp
qed

lemma reference_extent_ordered: "extent_ordered reference"
proof -
  have "\<not> js_lt (snd (extent_spec xs)) (fst (extent_spec xs))" for xs
  proof (cases "filter (\<lambda>v. v \<noteq> NaN) xs")
    case Nil
    then show ?thesis by (simp add: extent_spec_def)
  next
    case (Cons v rest)
    then have "v \<in> set (filter (\<lambda>v. v \<noteq> NaN) xs)" "set rest \<subseteq> set (filter (\<lambda>v. v \<noteq> NaN) xs)"
      by auto
    then have v: "v \<noteq> NaN" and r: "\<forall>x \<in> set rest. x \<noteq> NaN" by auto
    from extent_fold_ordered[OF r v v] Cons show ?thesis by (simp add: extent_spec_def)
  qed
  then show ?thesis by (simp add: extent_ordered_def reference_def)
qed

section \<open>A polygon that a constant random source never hits\<close>

definition wedge :: polygon where
  "wedge = [(Fin 1, Fin 0), (Fin 2, Fin 1), (Fin 0, Fin 1)]"

lemma closing_wedge:
  "closing wedge = [((Fin 0, Fin 1), (Fin 1, Fin 0)), ((Fin 1, Fin 0), (Fin 2, Fin 1)),
                    ((Fin 2, Fin 1), (Fin 0, Fin 1))]"
  by (simp add: closing_def wedge_def)

lemma length_wedge: "length wedge = 3"
  by (simp add: wedge_def)

lemma area_wedge: "js_abs (polygonArea reference wedge) = Fin 1"
  by (simp add: reference_def polygonArea_spec_def closing_wedge js_sub_def)

lemma extent_wedge:
  "extent reference (map fst wedge) = (Fin 0, Fin 2)"
  "extent reference (map snd wedge) = (Fin 0, Fin 1)"
  by (simp_all add: reference_def extent_spec_def wedge_def)

lemma box_wedge:
  "boxWidth reference wedge = Fin 2" "boxHeight reference wedge = Fin 1"
  "minx reference wedge = Fin 0" "miny reference wedge = Fin 0"
  by (simp_all add: boxWidth_def boxHeight_def minx_def maxx_def miny_def maxy_def
      extent_wedge js_sub_def)

lemma simplify_wedge: "simplify reference wedge (Fin (1 / 50)) = wedge"
proof -
  have f: "farthest (Fin 1, Fin 0) (Fin 0, Fin 1) [(Fin 2, Fin 1)] = (0, Fin 2)"
    by (simp add: farthest_def chord_sqdist_def squaredDistance_spec_def orient_def Let_def
        js_sub_def)
  have s: "simplify_spec [a, b] t = [a, b]" for a b t
    by (subst simplify_spec.simps) simp
  have "simplify_spec [(Fin 1, Fin 0), (Fin 2, Fin 1), (Fin 0, Fin 1)] (Fin (1 / 50)) =
        [(Fin 1, Fin 0), (Fin 2, Fin 1), (Fin 0, Fin 1)]"
    by (subst simplify_spec.simps) (simp add: f js_gt_def s del: simplify_spec.simps)
  then show ?thesis by (simp add: reference_def wedge_def)
qed

lemma simplified_wedge:
  assumes "tolerance opts = Fin (2 / 100)"
  shows "simplified reference opts wedge = wedge"
  by (simp add: simplified_def box_wedge assms js_min_def js_gt_def simplify_wedge)

lemma drawn_zero: "drawn zero_source (Fin 2) (Fin 1) (Fin 0) (Fin 0) j = (Fin 0, Fin 0)"
  by (simp add: drawn_def zero_source_def)

lemma corner_outside_wedge: "\<not> pointInPoly reference (Fin 0, Fin 0) wedge"
  by (simp add: reference_def pointInPoly_spec_def closing_wedge crosses_ray_def js_gt_def
      js_sub_def)

lemma wedge_never_sampled:
  assumes "tolerance opts = Fin (2 / 100)" and "nTries opts = Fin 20"
    and "opt_origin opts = NoOrigin"
  shows "populate_origins reference zero_source opts wedge = None"
proof -
  have "sample_origins reference zero_source wedge (Fin 2) (Fin 1) (Fin 0) (Fin 0) (Fin 20) 0
          (if pointInPoly reference (polygonCentroid reference wedge) wedge
           then [polygonCentroid reference wedge] else []) = None"
    by (rule sample_origins_never) (simp_all add: drawn_zero corner_outside_wedge)
  then show ?thesis
    by (simp add: populate_origins_def assms box_wedge Let_def)
qed

lemma wedge_never_returns:
  assumes "u_tolerance u = None" and "u_nTries u = None" and "u_origin u = NoOrigin"
  shows "largestRect reference zero_source wedge u = None"
proof -
  let ?o = "with_defaults reference u"
  have o: "tolerance ?o = Fin (2 / 100)" "nTries ?o = Fin 20" "opt_origin ?o = NoOrigin"
    by (simp_all add: with_defaults_def assms)
  show ?thesis
    by (simp add: largestRect_def Let_def length_wedge area_wedge simplified_wedge[OF o(1)]
        wedge_never_sampled[OF o])
qed

text \<open>On the square, the same source hits at every draw.\<close>

lemma corner_inside_square: "pointInPoly reference (Fin 0, Fin 0) square"
  by (simp add: reference_def pointInPoly_spec_def closing_square crosses_ray_def js_gt_def
      js_sub_def)

lemma drawn_zero_square: "drawn zero_source (Fin 1) (Fin 1) (Fin 0) (Fin 0) j = (Fin 0, Fin 0)"
  by (simp add: drawn_def zero_source_def)

lemma sample_square:
  "sample_origins reference zero_source square (Fin 1) (Fin 1) (Fin 0) (Fin 0) (Fin 2) 0 [centre] =
     Some [centre, (Fin 0, Fin 0)]"
  by (simp add: sample_origins_step[of _ _ _ _ _ _ _ _ _ "[centre]"]
      sample_origins_step[of _ _ _ _ _ _ _ _ _ "[centre, (Fin 0, Fin 0)]"]
      drawn_zero_square corner_inside_square)

section \<open>Properties of the solver\<close>

text \<open>More concrete inputs, and the run on the square as the properties use it.\<close>

definition half_source :: "nat \<Rightarrow> jsnum" where
  "half_source k = Fin (1 / 2)"

definition collinear :: polygon where
  "collinear = [(Fin 0, Fin 0), (Fin 1, Fin 1), (Fin 2, Fin 2)]"

definition pruned :: state where
  "pruned = \<lparr>maxArea = Fin 2, maxRect = None, events = []\<rparr>"

definition tied :: state where
  "tied = \<lparr>maxArea = Fin 1, maxRect = None, events = []\<rparr>"

lemma wide_plain: "wide\<lparr>u_events := False\<rparr> = wide"
  by (simp add: wide_def no_options_def)

lemma run_plain: "largestRect reference rnd square wide = Some (Rect found, [])"
  using run_wide[of rnd False] by (simp add: wide_plain)

lemma run_traced:
  "largestRect reference rnd square (wide\<lparr>u_events := True\<rparr>) = Some (Traced (Some found) trace, [])"
  using run_wide[of rnd True] by simp

lemma wide_options:
  "tolerance (with_defaults reference wide) = Fin 0"
  "minHeight (with_defaults reference wide) = Fin (9 / 10)"
  "minWidth (with_defaults reference wide) = Fin (19 / 20)"
  "angles reference (with_defaults reference wide) = [Fin 0]"
  "opt_events (with_defaults reference wide) = False"
  by (simp_all add: with_defaults_def wide_def no_options_def angles_def)

lemma simplified_square: "simplified reference (with_defaults reference wide) square = square"
  by (simp add: simplified_def box_square wide_options js_min_def js_gt_def)

lemma rectPoly_found:
  "rectPoly_of reference found =
     [(Fin (1 / 160), Fin (81 / 320)), (Fin (159 / 160), Fin (81 / 320)),
      (Fin (159 / 160), Fin (239 / 320)), (Fin (1 / 160), Fin (239 / 320))]"
proof -
  have "rectPoly_of reference found =
        rotatePoly reference (corners centre (Fin (79 / 80)) (Fin (79 / 160))) (Fin 0) centre"
    by (simp add: rectPoly_of_def found_def centre_def to_angleRad_def PI_def)
  then show ?thesis by (simp add: rotate_none)
qed

text \<open>
  C1. A rectangle that the call returns passed the containment test against the
  simplified polygon when it was recorded: the test holds of its rotated corner polygon,
  and \<open>points\<close> is that polygon with its first corner repeated. Under the contract of
  the test, every rotated corner is inside the simplified polygon and no edge between
  corners crosses an edge of it.
\<close>

theorem returned_candidate_contained:
  assumes "largestRect D rnd poly0 u = Some (res, msgs)"
    and "candidate_of res = Some c"
  shows "polyInPoly D (rectPoly_of D c) (simplified D (with_defaults D u) poly0) \<and>
         points c = push_first (rectPoly_of D c) \<and>
         (containment_contract D crosses \<longrightarrow>
            (\<forall>p \<in> set (rectPoly_of D c). pointInPoly D p (simplified D (with_defaults D u) poly0)) \<and>
            (\<forall>e \<in> set (closing (rectPoly_of D c)).
               \<forall>f \<in> set (closing (simplified D (with_defaults D u) poly0)). \<not> crosses e f))"
proof -
  from largestRect_recorded[OF assms] have
    inside: "polyInPoly D (rectPoly_of D c) (simplified D (with_defaults D u) poly0)"
    and pts: "points c = push_first (rectPoly_of D c)"
    by (auto simp: recorded_def)
  from inside have "containment_contract D crosses \<longrightarrow>
            (\<forall>p \<in> set (rectPoly_of D c). pointInPoly D p (simplified D (with_defaults D u) poly0)) \<and>
            (\<forall>e \<in> set (closing (rectPoly_of D c)).
               \<forall>f \<in> set (closing (simplified D (with_defaults D u) poly0)). \<not> crosses e f)"
    unfolding containment_contract_def by blast
  with inside pts show ?thesis by blast
qed

theorem returned_candidate_contained_witness:
  "largestRect reference zero_source square wide = Some (Rect found, []) \<and>
   candidate_of (Rect found) = Some found \<and>
   polyInPoly reference (rectPoly_of reference found)
     (simplified reference (with_defaults reference wide) square) \<and>
   points found = push_first (rectPoly_of reference found) \<and>
   containment_contract reference segments_cross \<and>
   pointInPoly reference (Fin (1 / 160), Fin (81 / 320))
     (simplified reference (with_defaults reference wide) square)"
proof -
  have run: "largestRect reference zero_source square wide = Some (Rect found, [])"
    by (rule run_plain)
  have cand: "candidate_of (Rect found) = Some found" by simp
  note t = returned_candidate_contained[OF run cand, of segments_cross]
  from t reference_contract have
    "\<forall>p \<in> set (rectPoly_of reference found).
       pointInPoly reference p (simplified reference (with_defaults reference wide) square)"
    by blast
  then have "pointInPoly reference (Fin (1 / 160), Fin (81 / 320))
     (simplified reference (with_defaults reference wide) square)"
    by (simp add: rectPoly_found)
  with t run cand reference_contract show ?thesis by blast
qed

text \<open>
  C2. In a traced run, every probe that passes the containment test assigns
  \<^verbatim>\<open>maxArea\<close> and leaves an event; the areas so assigned, after the initial zero, are
  strictly increasing in the order of the trace, and the returned rectangle is the one
  of the last such probe: an area equal to the best so far never replaces it. The
  numbers are exact reals with the special values; \<^verbatim>\<open>extent\<close> is taken to return a
  maximum that is not below the minimum.
\<close>

theorem best_area_strictly_grows:
  assumes "largestRect D rnd poly0 u = Some (Traced c evs, msgs)"
    and "extent_ordered D"
  shows "sorted_wrt js_lt (Fin 0 # assigned evs) \<and> last_recorded evs c \<and>
         map_option area c = (if assigned evs = [] then None else Some (last (assigned evs)))"
proof -
  let ?o = "with_defaults D u"
  let ?p = "simplified D ?o poly0"
  from largestRect_cases[OF assms(1)] obtain os st where
    r: "for_angles D ?o ?p (js_abs (polygonArea D poly0)) (widthStep D ?p) os (angles D ?o)
          (initial ?o ?p os) = Some st"
    and f: "Traced c evs = finish ?o st"
    by blast
  from f have on: "opt_events ?o" and c: "c = maxRect st" and e: "evs = events st"
    by (auto simp: finish_def split: if_splits option.splits)
  from search_grows[OF not_negative_widthStep[OF assms(2)] on r trace_inv_initial]
  have t: "trace_inv st" .
  then have l: "last_recorded (events st) (maxRect st)" by (simp add: trace_inv_def)
  from area_of_last_recorded[OF l refl] t c e show ?thesis by (simp add: trace_inv_def)
qed

theorem best_area_strictly_grows_witness:
  "largestRect reference zero_source square (wide\<lparr>u_events := True\<rparr>) =
     Some (Traced (Some found) trace, []) \<and>
   extent_ordered reference \<and>
   sorted_wrt js_lt (Fin 0 # assigned trace) \<and>
   last_recorded trace (Some found) \<and>
   map_option area (Some found) = Some (last (assigned trace)) \<and>
   assigned trace = [Fin (1521 / 3200), Fin (6241 / 12800)]"
proof -
  have a: "assigned trace = [Fin (1521 / 3200), Fin (6241 / 12800)]"
    by (simp add: assigned_def trace_def recentred_def at_centre_def seen_first_def seen_found_def)
  note t = best_area_strictly_grows[OF run_traced[of zero_source] reference_extent_ordered]
  from t a have "map_option area (Some found) = Some (last (assigned trace))" by simp
  with t a run_traced[of zero_source] reference_extent_ordered show ?thesis by blast
qed

text \<open>
  C3. The rectangle that the call returns does not depend on \<^verbatim>\<open>options.events\<close>: with
  the same polygon, options and random numbers, the call with tracing returns if and
  only if the call without tracing does, and then the two results carry the same
  rectangle, or both none.
\<close>

theorem events_do_not_change_candidate:
  "map_option (\<lambda>r. candidate_of (fst r)) (largestRect D rnd poly0 (u\<lparr>u_events := True\<rparr>)) =
   map_option (\<lambda>r. candidate_of (fst r)) (largestRect D rnd poly0 (u\<lparr>u_events := False\<rparr>))"
proof (cases "largestRect D rnd poly0 (u\<lparr>u_events := True\<rparr>)")
  case None
  show ?thesis
  proof (cases "largestRect D rnd poly0 (u\<lparr>u_events := False\<rparr>)")
    case (Some r)
    obtain res msgs where "r = (res, msgs)" by (cases r)
    with Some largestRect_events_sim[where x = False and y = True and u = u and res = res and msgs = msgs and D = D and rnd = rnd and ?poly0.0 = poly0] None
    show ?thesis by auto
  qed (simp add: None)
next
  case (Some r)
  obtain res msgs where "r = (res, msgs)" by (cases r)
  with Some largestRect_events_sim[where x = True and y = False and u = u and res = res and msgs = msgs and D = D and rnd = rnd and ?poly0.0 = poly0]
  show ?thesis by auto
qed

text \<open>
  C4. The width of a returned rectangle is at least \<^verbatim>\<open>options.minWidth\<close> (lemma
  \<open>width_at_least_minWidth\<close>), but \<^verbatim>\<open>options.minHeight\<close> only bounds the derived
  aspect ratios and is never compared with a height: on the unit square, with aspect
  ratio 2 and a minimum height of 0.9, the call returns a rectangle of height 0.49375.
\<close>

theorem min_height_not_enforced:
  "largestRect reference zero_source square wide = Some (Rect found, []) \<and>
   u_minHeight wide = Some (Fin (9 / 10)) \<and>
   minHeight (with_defaults reference wide) = Fin (9 / 10) \<and>
   height found = Fin (79 / 160) \<and>
   js_lt (height found) (minHeight (with_defaults reference wide)) \<and>
   js_ge (width found) (minWidth (with_defaults reference wide))"
  by (simp add: run_plain wide_options js_ge_def) (simp add: found_def wide_def no_options_def)

text \<open>
  C5. The sampling loop has no bound on its attempts and no outcome for giving up. When
  it returns, the list is no shorter than \<^verbatim>\<open>nTries\<close> and is the initial list
  followed by drawn points that are inside the polygon; it returns when every drawn point
  is inside and \<^verbatim>\<open>nTries\<close> is not infinite; it never returns when no drawn point is
  inside and the list is shorter than \<^verbatim>\<open>nTries\<close>.
\<close>

theorem sampling_has_no_cap:
  "(sample_origins D rnd poly bw bh mx my n k os = Some os' \<longrightarrow>
      \<not> js_lt (Fin (real (length os'))) n \<and>
      (\<exists>added. os' = os @ added \<and> (\<forall>p \<in> set added. pointInPoly D p poly))) \<and>
   ((\<forall>j. pointInPoly D (drawn rnd bw bh mx my j) poly) \<and> n \<noteq> PInf \<longrightarrow>
      (\<exists>os1. sample_origins D rnd poly bw bh mx my n k os = Some os1)) \<and>
   ((\<forall>j. \<not> pointInPoly D (drawn rnd bw bh mx my j) poly) \<and> js_lt (Fin (real (length os))) n \<longrightarrow>
      sample_origins D rnd poly bw bh mx my n k os = None)"
proof (intro conjI impI)
  assume "sample_origins D rnd poly bw bh mx my n k os = Some os'"
  from sample_origins_result[OF this]
  show "\<not> js_lt (Fin (real (length os'))) n"
    and "\<exists>added. os' = os @ added \<and> (\<forall>p \<in> set added. pointInPoly D p poly)"
    by blast+
next
  assume "(\<forall>j. pointInPoly D (drawn rnd bw bh mx my j) poly) \<and> n \<noteq> PInf"
  then show "\<exists>os1. sample_origins D rnd poly bw bh mx my n k os = Some os1"
    using sample_origins_always by blast
next
  assume "(\<forall>j. \<not> pointInPoly D (drawn rnd bw bh mx my j) poly) \<and> js_lt (Fin (real (length os))) n"
  then show "sample_origins D rnd poly bw bh mx my n k os = None"
    using sample_origins_never by blast
qed

theorem sampling_has_no_cap_witness:
  "sample_origins reference zero_source square (Fin 1) (Fin 1) (Fin 0) (Fin 0) (Fin 2) 0 [centre] =
     Some [centre, (Fin 0, Fin 0)] \<and>
   \<not> js_lt (Fin (real (length [centre, (Fin 0, Fin 0)]))) (Fin 2) \<and>
   sample_origins reference zero_source wedge (Fin 2) (Fin 1) (Fin 0) (Fin 0) (Fin 20) 0 [] = None"
proof -
  note t = sampling_has_no_cap[of reference zero_source square "Fin 1" "Fin 1" "Fin 0" "Fin 0"
      "Fin 2" 0 "[centre]" "[centre, (Fin 0, Fin 0)]"]
  from t sample_square have a: "\<not> js_lt (Fin (real (length [centre, (Fin 0, Fin 0)]))) (Fin 2)"
    by blast
  note v = sampling_has_no_cap[of reference zero_source wedge "Fin 2" "Fin 1" "Fin 0" "Fin 0"
      "Fin 20" 0 "[]" "[]"]
  have "\<forall>j. \<not> pointInPoly reference (drawn zero_source (Fin 2) (Fin 1) (Fin 0) (Fin 0) j) wedge"
    by (simp add: drawn_zero corner_outside_wedge)
  moreover have "js_lt (Fin (real (length ([] :: point list)))) (Fin 20)" by simp
  ultimately have b: "sample_origins reference zero_source wedge (Fin 2) (Fin 1) (Fin 0) (Fin 0)
      (Fin 20) 0 [] = None"
    using v by blast
  from sample_square a b show ?thesis by blast
qed

theorem sampling_never_ends_counterexample:
  "u_origin no_options = NoOrigin \<and> largestRect reference zero_source wedge no_options = None"
  by (simp add: wedge_never_returns no_options_def)

text \<open>
  C6. Fewer than three points, or an unsigned area of zero, make the call return
  \<^verbatim>\<open>null\<close> at once, whatever the options, the imported functions and the random
  numbers are; the two cases differ in the message written when \<^verbatim>\<open>verbose\<close> is set.
\<close>

theorem degenerate_input_returns_null:
  "(length poly0 < 3 \<longrightarrow>
      largestRect D rnd poly0 u =
        Some (Null, if u_verbose u = Some True then [TooFewPoints poly0] else [])) \<and>
   (\<not> length poly0 < 3 \<and> js_abs (polygonArea D poly0) = Fin 0 \<longrightarrow>
      largestRect D rnd poly0 u =
        Some (Null, if u_verbose u = Some True then [ZeroArea poly0] else []))"
  by (auto simp: largestRect_def with_defaults_def Let_def split: option.splits)

theorem degenerate_input_returns_null_witness:
  "length [(Fin 0, Fin 0), (Fin 1, Fin 1)] < 3 \<and>
   largestRect reference zero_source [(Fin 0, Fin 0), (Fin 1, Fin 1)] no_options = Some (Null, []) \<and>
   \<not> length collinear < 3 \<and>
   js_abs (polygonArea reference collinear) = Fin 0 \<and>
   largestRect reference zero_source collinear (no_options\<lparr>u_verbose := Some True\<rparr>) =
     Some (Null, [ZeroArea collinear])"
proof -
  have l: "length [(Fin 0, Fin 0), (Fin 1 :: jsnum, Fin 1 :: jsnum)] < 3" by simp
  have v: "u_verbose no_options \<noteq> Some True" by (simp add: no_options_def)
  from degenerate_input_returns_null[of "[(Fin 0, Fin 0), (Fin 1, Fin 1)]" reference zero_source
      no_options] l v
  have a: "largestRect reference zero_source [(Fin 0, Fin 0), (Fin 1, Fin 1)] no_options =
      Some (Null, [])" by simp
  have c: "\<not> length collinear < 3" by (simp add: collinear_def)
  have z: "js_abs (polygonArea reference collinear) = Fin 0"
    by (simp add: reference_def polygonArea_spec_def closing_def collinear_def js_sub_def)
  from degenerate_input_returns_null[of collinear reference zero_source
      "no_options\<lparr>u_verbose := Some True\<rparr>"] c z
  have b: "largestRect reference zero_source collinear (no_options\<lparr>u_verbose := Some True\<rparr>) =
      Some (Null, [ZeroArea collinear])" by simp
  from l a c z b show ?thesis by blast
qed

text \<open>Twice the distance from the origin to the nearer of the two hits of a ray.\<close>

definition reach :: "deps \<Rightarrow> point \<Rightarrow> point \<Rightarrow> point \<Rightarrow> jsnum" where
  "reach D origin p q =
     js_mul (Fin 2) (js_sqrt (js_min (squaredDistance D origin p) (squaredDistance D origin q)))"

text \<open>
  C7. At a recentred origin where both rays hit the boundary on both sides,
  \<^verbatim>\<open>maxWidth\<close> and \<^verbatim>\<open>maxHeight\<close> are twice the distance to the nearer hit of the
  width ray and of the height ray. When their product is below the best area, the
  iteration ends there: only the diagnostic event of the origin is added, and neither an
  aspect ratio nor the containment test is evaluated. Otherwise the two bounds go to the
  loop over the aspect ratios; that loop probes nothing and changes nothing when the
  product does not exceed the best area and the resolution of the search is positive.
\<close>

theorem pruning_step:
  assumes "rayIntersectsPoly D poly origin angleRad = (Some p1W, Some p2W)"
    and "rayIntersectsPoly D poly origin (js_add angleRad (js_div PI (Fin 2))) = (Some p1H, Some p2H)"
    and "maxWidth = reach D origin p1W p2W"
    and "maxHeight = reach D origin p1H p2H"
    and "st1 = push_event (opt_events opts) (EvOrigin (fst origin) (snd origin)) st"
  shows "try_origin D opts poly area0 ws ang angleRad origin st =
     (if js_lt (js_mul maxWidth maxHeight) (maxArea st) then Some st1
      else for_aRatios D opts poly area0 ws ang angleRad origin maxWidth maxHeight
             (if aspectRatios D opts = []
              then range D
                     (js_max (js_max (minAspectRatio opts) (js_div (minWidth opts) maxHeight))
                        (js_div (maxArea st) (js_mul maxHeight maxHeight)))
                     (js_add (js_min (js_min (maxAspectRatio opts)
                                (js_div maxWidth (minHeight opts)))
                                (js_div (js_mul maxWidth maxWidth) (maxArea st)))
                        aspectRatioStep)
                     aspectRatioStep
              else aspectRatios D opts) st1) \<and>
     (js_lt (Fin 0) ws \<and> \<not> js_lt (maxArea st) (js_mul maxWidth maxHeight) \<longrightarrow>
        try_origin D opts poly area0 ws ang angleRad origin st = Some st1)"
proof -
  have eq: "try_origin D opts poly area0 ws ang angleRad origin st =
     (if js_lt (js_mul maxWidth maxHeight) (maxArea st) then Some st1
      else for_aRatios D opts poly area0 ws ang angleRad origin maxWidth maxHeight
             (if aspectRatios D opts = []
              then range D
                     (js_max (js_max (minAspectRatio opts) (js_div (minWidth opts) maxHeight))
                        (js_div (maxArea st) (js_mul maxHeight maxHeight)))
                     (js_add (js_min (js_min (maxAspectRatio opts)
                                (js_div maxWidth (minHeight opts)))
                                (js_div (js_mul maxWidth maxWidth) (maxArea st)))
                        aspectRatioStep)
                     aspectRatioStep
              else aspectRatios D opts) st1)"
    using assms by (simp add: try_origin_def Let_def reach_def)
  have tie: "try_origin D opts poly area0 ws ang angleRad origin st = Some st1"
    if pos: "js_lt (Fin 0) ws" and b: "\<not> js_lt (maxArea st) (js_mul maxWidth maxHeight)"
  proof -
    from b assms(3,4,5) have b1: "\<not> js_lt (maxArea st1)
        (js_mul (js_mul (Fin 2) (js_sqrt (js_min (squaredDistance D origin p1W)
                                            (squaredDistance D origin p2W))))
                (js_mul (Fin 2) (js_sqrt (js_min (squaredDistance D origin p1H)
                                            (squaredDistance D origin p2H)))))"
      by (simp add: reach_def)
    from no_probe_when_bounded[OF pos b1] assms(3,4) eq show ?thesis
      by (simp add: reach_def)
  qed
  from eq tie show ?thesis by blast
qed

theorem pruning_step_witness:
  "rayIntersectsPoly reference square centre (Fin 0) =
     (Some (Fin 0, Fin (1 / 2)), Some (Fin 1, Fin (1 / 2))) \<and>
   rayIntersectsPoly reference square centre (js_add (Fin 0) (js_div PI (Fin 2))) =
     (Some (Fin (1 / 2), Fin 0), Some (Fin (1 / 2), Fin 1)) \<and>
   reach reference centre (Fin 0, Fin (1 / 2)) (Fin 1, Fin (1 / 2)) = Fin 1 \<and>
   reach reference centre (Fin (1 / 2), Fin 0) (Fin (1 / 2), Fin 1) = Fin 1 \<and>
   js_lt (js_mul (Fin 1) (Fin 1)) (maxArea pruned) \<and>
   try_origin reference (with_defaults reference wide) square (Fin 1) (Fin (1 / 50)) (Fin 0) (Fin 0)
     centre pruned = Some pruned \<and>
   js_lt (Fin 0) (Fin (1 / 50)) \<and>
   \<not> js_lt (maxArea tied) (js_mul (Fin 1) (Fin 1)) \<and>
   try_origin reference (with_defaults reference wide) square (Fin 1) (Fin (1 / 50)) (Fin 0) (Fin 0)
     centre tied = Some tied"
proof -
  have w: "Fin 1 = reach reference centre (Fin 0, Fin (1 / 2)) (Fin 1, Fin (1 / 2))"
    by (simp add: reach_def reach_width)
  have h: "Fin 1 = reach reference centre (Fin (1 / 2), Fin 0) (Fin (1 / 2), Fin 1)"
    by (simp add: reach_def reach_height)
  have s: "pruned = push_event (opt_events (with_defaults reference wide))
             (EvOrigin (fst centre) (snd centre)) pruned"
    by (simp add: push_event_def wide_options)
  have l: "js_lt (js_mul (Fin 1) (Fin 1)) (maxArea pruned)" by (simp add: pruned_def)
  note t = pruning_step[OF ray_width ray_height w h s, of "Fin 1" "Fin (1 / 50)" "Fin 0"]
  from t l have a: "try_origin reference (with_defaults reference wide) square (Fin 1)
      (Fin (1 / 50)) (Fin 0) (Fin 0) centre pruned = Some pruned"
    by simp
  have s': "tied = push_event (opt_events (with_defaults reference wide))
             (EvOrigin (fst centre) (snd centre)) tied"
    by (simp add: push_event_def wide_options)
  have p: "js_lt (Fin 0) (Fin (1 / 50))" by simp
  have e: "\<not> js_lt (maxArea tied) (js_mul (Fin 1) (Fin 1))" by (simp add: tied_def)
  note v = pruning_step[OF ray_width ray_height w h s', of "Fin 1" "Fin (1 / 50)" "Fin 0"]
  from v p e have b: "try_origin reference (with_defaults reference wide) square (Fin 1)
      (Fin (1 / 50)) (Fin 0) (Fin 0) centre tied = Some tied"
    by blast
  from ray_width ray_height w h l a p e b show ?thesis by simp
qed

text \<open>
  C8. When \<^verbatim>\<open>options.origin\<close> is a point or a list of points, the candidate centres
  are that point alone or the points of the list, no random number is drawn, and the
  result is the same for every sequence of random numbers.
\<close>

theorem explicit_origins_deterministic:
  assumes "u_origin u = OnePoint p \<or> u_origin u = ManyPoints p ps"
  shows "populate_origins D rnd (with_defaults D u) poly =
           Some (if u_origin u = OnePoint p then [p] else p # ps) \<and>
         largestRect D rnd poly0 u = largestRect D rnd' poly0 u"
  using assms
  by (auto simp: populate_origins_def largestRect_def with_defaults_def Let_def)

theorem explicit_origins_deterministic_witness:
  "u_origin wide = OnePoint centre \<and>
   populate_origins reference zero_source (with_defaults reference wide) square = Some [centre] \<and>
   largestRect reference zero_source square wide = largestRect reference half_source square wide"
proof -
  have o: "u_origin wide = OnePoint centre" by (simp add: wide_def no_options_def)
  then have "u_origin wide = OnePoint centre \<or> u_origin wide = ManyPoints centre []" by simp
  from explicit_origins_deterministic[OF this, of reference zero_source square square half_source] o
  show ?thesis by simp
qed

text \<open>
  C9. Without diagnostic mode, a returned rectangle has its centre at a recentred origin
  of one of the candidate centres, at its own angle, which is one of the derived angles;
  its area is the product of its width and height; \<open>points\<close> is the rotated corner
  polygon followed by its first point, hence, the rotation keeping the number of points,
  five defined points of which the fifth is the first.
\<close>

theorem result_shape:
  assumes "largestRect D rnd poly0 u = Some (Rect c, msgs)"
  shows "(\<exists>os. populate_origins D rnd (with_defaults D u) (simplified D (with_defaults D u) poly0) = Some os \<and>
            (\<exists>orig \<in> set os. (cx c, cy c) \<in> set (modifOrigins D (simplified D (with_defaults D u) poly0)
                                      (to_angleRad (angle c)) orig))) \<and>
         angle c \<in> set (angles D (with_defaults D u)) \<and>
         area c = js_mul (width c) (height c) \<and>
         points c = push_first (rectPoly_of D c) \<and>
         ((\<forall>ps a p. length (rotatePoly D ps a p) = length ps) \<longrightarrow>
            length (points c) = 5 \<and> points c ! 4 = points c ! 0 \<and> None \<notin> set (points c))"
proof -
  have cand: "candidate_of (Rect c) = Some c" by simp
  from largestRect_recorded[OF assms cand] obtain os where
    os: "populate_origins D rnd (with_defaults D u) (simplified D (with_defaults D u) poly0) = Some os"
    and r: "recorded D (simplified D (with_defaults D u) poly0) (angles D (with_defaults D u)) os c"
    by blast
  from r have pts: "points c = push_first (rectPoly_of D c)" by (simp add: recorded_def)
  have five: "length (points c) = 5 \<and> points c ! 4 = points c ! 0 \<and> None \<notin> set (points c)"
    if len: "\<forall>ps a p. length (rotatePoly D ps a p) = length ps"
  proof -
    from len have "length (rectPoly_of D c) = 4"
      by (simp add: rectPoly_of_def corners_def Let_def)
    then obtain p0 p1 p2 p3 where "rectPoly_of D c = [p0, p1, p2, p3]"
      by (auto simp: length_Suc_conv numeral_eq_Suc)
    with pts show ?thesis by (simp add: push_first_def)
  qed
  from os r pts five show ?thesis unfolding recorded_def by blast
qed

theorem result_shape_witness:
  "largestRect reference zero_source square wide = Some (Rect found, []) \<and>
   angle found \<in> set (angles reference (with_defaults reference wide)) \<and>
   area found = js_mul (width found) (height found) \<and>
   points found = push_first (rectPoly_of reference found) \<and>
   length (points found) = 5 \<and> points found ! 4 = points found ! 0"
proof -
  note t = result_shape[OF run_plain[of zero_source]]
  have "\<forall>ps a p. length (rotatePoly reference ps a p) = length ps"
    by (simp add: reference_rotate_length)
  with t run_plain[of zero_source] show ?thesis by blast
qed

text \<open>
  C10. With at least three points, an area that is not zero and a malformed
  \<^verbatim>\<open>options.angle\<close>, the list of angles is empty and no angle is searched: the call
  returns when the candidate centres are determined, at once if origins were supplied, and
  its result holds no rectangle: \<^verbatim>\<open>null\<close>, or with tracing the two events of the
  simplification and of the origins. It does not return when the sampling of the centres
  does not.
\<close>

theorem malformed_angle_no_search:
  assumes "malformed D (u_angle u)"
    and "\<not> length poly0 < 3"
    and "\<not> js_eq (js_abs (polygonArea D poly0)) (Fin 0)"
  shows "angles D (with_defaults D u) = [] \<and>
         largestRect D rnd poly0 u =
           (case populate_origins D rnd (with_defaults D u) (simplified D (with_defaults D u) poly0) of
              None \<Rightarrow> None
            | Some os \<Rightarrow>
                Some (if u_events u
                      then Traced None [EvSimplify (simplified D (with_defaults D u) poly0), EvOrigins os]
                      else Null, [])) \<and>
         (origins (u_origin u) \<noteq> [] \<longrightarrow>
            largestRect D rnd poly0 u =
              Some (if u_events u
                    then Traced None [EvSimplify (simplified D (with_defaults D u) poly0),
                                      EvOrigins (origins (u_origin u))]
                    else Null, []))"
proof -
  have a: "angles D (with_defaults D u) = []" by (rule malformed_angles[OF assms(1)])
  have e: "opt_events (with_defaults D u) = u_events u" "opt_origin (with_defaults D u) = u_origin u"
    by (simp_all add: with_defaults_def)
  have b: "largestRect D rnd poly0 u =
           (case populate_origins D rnd (with_defaults D u) (simplified D (with_defaults D u) poly0) of
              None \<Rightarrow> None
            | Some os \<Rightarrow>
                Some (if u_events u
                      then Traced None [EvSimplify (simplified D (with_defaults D u) poly0), EvOrigins os]
                      else Null, []))"
    using assms(2,3)
    by (simp add: largestRect_def Let_def a e finish_def initial_def push_event_def
        split: option.splits)
  have c: "origins (u_origin u) \<noteq> [] \<Longrightarrow>
      populate_origins D rnd (with_defaults D u) (simplified D (with_defaults D u) poly0)
        = Some (origins (u_origin u))"
    by (simp add: populate_origins_def e)
  from a b c show ?thesis by simp
qed

theorem malformed_angle_no_search_witness:
  "malformed reference (u_angle (wide\<lparr>u_angle := Other\<rparr>)) \<and>
   \<not> length square < 3 \<and>
   \<not> js_eq (js_abs (polygonArea reference square)) (Fin 0) \<and>
   angles reference (with_defaults reference (wide\<lparr>u_angle := Other\<rparr>)) = [] \<and>
   largestRect reference zero_source square (wide\<lparr>u_angle := Other\<rparr>) = Some (Null, [])"
proof -
  have m: "malformed reference (u_angle (wide\<lparr>u_angle := Other\<rparr>))"
    by (simp add: malformed_def)
  have l: "\<not> length square < 3" by (simp add: length_square)
  have a: "\<not> js_eq (js_abs (polygonArea reference square)) (Fin 0)" by (simp add: area_square)
  note t = malformed_angle_no_search[OF m l a, of zero_source]
  have o: "origins (u_origin (wide\<lparr>u_angle := Other\<rparr>)) \<noteq> []"
    and e: "\<not> u_events (wide\<lparr>u_angle := Other\<rparr>)"
    by (simp_all add: wide_def no_options_def)
  from t o have "largestRect reference zero_source square (wide\<lparr>u_angle := Other\<rparr>) =
      Some (if u_events (wide\<lparr>u_angle := Other\<rparr>)
            then Traced None
                   [EvSimplify (simplified reference
                      (with_defaults reference (wide\<lparr>u_angle := Other\<rparr>)) square),
                    EvOrigins (origins (u_origin (wide\<lparr>u_angle := Other\<rparr>)))]
            else Null, [])"
    by blast
  with e have "largestRect reference zero_source square (wide\<lparr>u_angle := Other\<rparr>) =
      Some (Null, [])"
    by (simp only: if_False)
  with t m l a show ?thesis by blast
qed

theorem malformed_angle_counterexample:
  "malformed reference (u_angle (no_options\<lparr>u_angle := Other\<rparr>)) \<and>
   \<not> length wedge < 3 \<and>
   \<not> js_eq (js_abs (polygonArea reference wedge)) (Fin 0) \<and>
   largestRect reference zero_source wedge (no_options\<lparr>u_angle := Other\<rparr>) = None \<and>
   largestRect reference zero_source square (wide\<lparr>u_angle := Other, u_events := True\<rparr>) =
     Some (Traced None [EvSimplify square, EvOrigins [centre]], [])"
proof -
  let ?u = "wide\<lparr>u_angle := Other, u_events := True\<rparr>"
  let ?o = "with_defaults reference ?u"
  have o: "tolerance ?o = Fin 0" "opt_events ?o" "opt_origin ?o = OnePoint centre"
    "angles reference ?o = []"
    by (simp_all add: with_defaults_def wide_def no_options_def angles_def)
  have s: "simplified reference ?o square = square"
    by (simp add: simplified_def box_square o js_min_def js_gt_def)
  have p: "populate_origins reference zero_source ?o square = Some [centre]"
    by (simp add: populate_origins_def o)
  have "largestRect reference zero_source square ?u =
      Some (Traced None [EvSimplify square, EvOrigins [centre]], [])"
    unfolding largestRect_def Let_def
    by (simp add: length_square area_square s p o finish_def initial_def push_event_def)
  then show ?thesis
    by (simp add: malformed_def length_wedge area_wedge wedge_never_returns no_options_def)
qed


end
